theory Spec2Isabelle
  imports Complex_Main "HOL-Library.Word"
begin

section \<open>Basic types\<close>

text \<open>
  \<open>uuid.UUID\<close> is a 16-byte array; \<open>[]byte\<close> and Go strings are byte sequences.
\<close>

type_synonym uuid = "128 word"
type_synonym bytes = string

section \<open>Sessions and their outbound channels (internal/realtime/client.go)\<close>

text \<open>
  A \<open>*Client\<close> is used by the hub only as a key and through \<open>client.UserID\<close>,
  \<open>client.Username\<close> and \<open>client.Send\<close>. The immutable fields form the record
  below; \<open>Conn\<close> is the handle of the connection, which tells apart two sessions of
  one user. The mutable state of \<open>client.Send\<close> lives in the hub state, keyed by
  the client.
\<close>

record Client =
  UserID :: uuid
  Conn :: nat
  Username :: string

text \<open>
  A buffered Go channel of byte slices: the queued messages, the capacity given to
  \<open>make\<close> (the constructor of \<open>Client\<close> is not part of the sources, so the
  capacity is a field), and whether \<open>close\<close> has been called.
\<close>

record chan =
  buf :: "bytes list"
  cap :: nat
  closed :: bool

datatype panic = SendOnClosedChannel | CloseOfClosedChannel

text \<open>\<open>close(ch)\<close>: panics on a channel that is already closed.\<close>

definition chan_close :: "chan \<Rightarrow> panic + chan" where
  "chan_close ch = (if closed ch then Inl CloseOfClosedChannel else Inr (ch\<lparr>closed := True\<rparr>))"

text \<open>
  \<open>select { case ch <- m: default: }\<close>: the send proceeds when the buffer has room
  and the result is \<open>True\<close>; otherwise the default branch runs and the result is
  \<open>False\<close>. A send on a closed channel panics.
\<close>

definition chan_try_send :: "chan \<Rightarrow> bytes \<Rightarrow> panic + (bool \<times> chan)" where
  "chan_try_send ch m =
     (if closed ch then Inl SendOnClosedChannel
      else if length (buf ch) < cap ch then Inr (True, ch\<lparr>buf := buf ch @ [m]\<rparr>)
      else Inr (False, ch))"

section \<open>The hub (Hub.Run, broadcastToLocal)\<close>

text \<open>
  \<open>clients\<close> is \<open>map[uuid.UUID]map[*Client]bool\<close>. The inner map only ever holds
  \<open>true\<close>, so it is the list of its keys, in the order in which \<open>range\<close> visits
  them. \<open>Send\<close> gives the state of each client's channel.
\<close>

record Hub =
  clients :: "uuid \<rightharpoonup> Client list"
  Send :: "Client \<Rightarrow> chan"

text \<open>\<open>NewHub\<close>: an empty registry. The channels exist before their clients register.\<close>

definition NewHub :: "(Client \<Rightarrow> chan) \<Rightarrow> Hub" where
  "NewHub chans = \<lparr>clients = Map.empty, Send = chans\<rparr>"

text \<open>\<open>m[client] = true\<close> on the inner map.\<close>

definition set_key :: "Client list \<Rightarrow> Client \<Rightarrow> Client list" where
  "set_key cs c = (if c \<in> set cs then cs else cs @ [c])"

text \<open>The \<open>case client := <-h.Register\<close> branch of \<open>Run\<close>.\<close>

definition register :: "Hub \<Rightarrow> Client \<Rightarrow> Hub" where
  "register h client =
     (let inner = (case clients h (UserID client) of None \<Rightarrow> [] | Some cs \<Rightarrow> cs)
      in h\<lparr>clients := (clients h)(UserID client \<mapsto> set_key inner client)\<rparr>)"

text \<open>The \<open>case client := <-h.Unregister\<close> branch of \<open>Run\<close>.\<close>

definition unregister :: "Hub \<Rightarrow> Client \<Rightarrow> panic + Hub" where
  "unregister h client =
     (case clients h (UserID client) of
        None \<Rightarrow> Inr h
      | Some userClients \<Rightarrow>
          if client \<in> set userClients then
            (let userClients' = removeAll client userClients in
             case chan_close (Send h client) of
               Inl p \<Rightarrow> Inl p
             | Inr ch \<Rightarrow>
                 Inr (h\<lparr>clients :=
                          (if length userClients' = 0 then (clients h)(UserID client := None)
                           else (clients h)(UserID client \<mapsto> userClients')),
                        Send := (Send h)(client := ch)\<rparr>))
          else Inr h)"

text \<open>
  The body of \<open>for client := range clients\<close> in \<open>broadcastToLocal\<close>: the first
  list holds the keys still to visit, the state is the channels and the inner map.
\<close>

fun range_clients ::
  "bytes \<Rightarrow> Client list \<Rightarrow> (Client \<Rightarrow> chan) \<times> Client list \<Rightarrow>
   panic + ((Client \<Rightarrow> chan) \<times> Client list)" where
  "range_clients message [] st = Inr st"
| "range_clients message (client # rest) (send, inner) =
     (case chan_try_send (send client) message of
        Inl p \<Rightarrow> Inl p
      | Inr (True, ch) \<Rightarrow> range_clients message rest (send(client := ch), inner)
      | Inr (False, _) \<Rightarrow>
          (case chan_close (send client) of
             Inl p \<Rightarrow> Inl p
           | Inr ch \<Rightarrow>
               range_clients message rest (send(client := ch), removeAll client inner)))"

definition broadcastToLocal :: "Hub \<Rightarrow> uuid \<Rightarrow> bytes \<Rightarrow> panic + Hub" where
  "broadcastToLocal h userID message =
     (case clients h userID of
        None \<Rightarrow> Inr h
      | Some cs \<Rightarrow>
          (case range_clients message cs (Send h, cs) of
             Inl p \<Rightarrow> Inl p
           | Inr (send', cs') \<Rightarrow>
               Inr (h\<lparr>clients := (clients h)(userID \<mapsto> cs'), Send := send'\<rparr>)))"

text \<open>\<open>IsUserOnline\<close>.\<close>

definition IsUserOnline :: "Hub \<Rightarrow> uuid \<Rightarrow> bool" where
  "IsUserOnline h userID =
     (case clients h userID of None \<Rightarrow> False | Some cs \<Rightarrow> length cs > 0)"

text \<open>
  What \<open>Run\<close> and \<open>broadcastToLocal\<close> keep true of the registry: an inner map has
  each key once, a client is filed under its own user, and a registered client's channel
  is open.
\<close>

definition hub_inv :: "Hub \<Rightarrow> bool" where
  "hub_inv h =
     (\<forall>u cs. clients h u = Some cs \<longrightarrow>
        distinct cs \<and> (\<forall>c \<in> set cs. UserID c = u \<and> \<not> closed (Send h c)))"

text \<open>Whether a client is anywhere in the registry.\<close>

definition registered :: "Hub \<Rightarrow> Client \<Rightarrow> bool" where
  "registered h c = (\<exists>u cs. clients h u = Some cs \<and> c \<in> set cs)"

text \<open>Whether a channel can take one more message at once.\<close>

definition has_room :: "chan \<Rightarrow> bool" where
  "has_room ch = (length (buf ch) < cap ch)"

section \<open>The shared stream (Redis, as go-redis exposes it)\<close>

text \<open>
  Redis is outside the repository; this is the part of its stream commands the hub uses.
  An entry ID \<open>ms-seq\<close> is a number; a stream keeps its entries in ID order together
  with the last ID it generated, which stays when entries are evicted. A field value
  reaches Go as an \<open>interface{}\<close>.
\<close>

datatype go_value = GoString string | GoInt int

record XMessage =
  ID :: nat
  Values :: "string \<rightharpoonup> go_value"

record stream =
  entries :: "XMessage list"
  last_generated :: nat

record XAddArgs =
  Stream :: string
  AddValues :: "string \<rightharpoonup> go_value"
  MaxLen :: nat
  Approx :: bool

text \<open>
  \<open>XADD key MAXLEN [~] n * field value ...\<close>: the new entry gets an ID above every ID
  generated so far (\<open>delta\<close> is how far above, the clock's choice). With a cap, the
  oldest entries are evicted: exactly down to \<open>MaxLen\<close>, or with \<open>Approx\<close> only some
  of them (\<open>evict\<close> at most, whole nodes in Redis), never below \<open>MaxLen\<close>.
  \<open>MaxLen = 0\<close> is no cap in go-redis.
\<close>

definition redis_XAdd :: "nat \<Rightarrow> nat \<Rightarrow> XAddArgs \<Rightarrow> stream \<Rightarrow> stream" where
  "redis_XAdd delta evict args s =
     (let i = last_generated s + 1 + delta;
          es = entries s @ [\<lparr>ID = i, Values = AddValues args\<rparr>];
          over = length es - MaxLen args;
          n = (if MaxLen args = 0 then 0 else if Approx args then min evict over else over)
      in \<lparr>entries = drop n es, last_generated = i\<rparr>)"

text \<open>The \<open>lastID\<close> variable of the tailing loop: \<open>"$"\<close> or an entry's ID.\<close>

datatype last_id = Dollar | EntryID nat

text \<open>
  \<open>XREAD COUNT n BLOCK ms STREAMS key id\<close> on one stream. \<open>$\<close> stands for the last
  ID generated when the call arrives, so only entries added while the call blocks are
  returned. \<open>None\<close> is \<open>redis.Nil\<close>: nothing arrived before the timeout.
\<close>

definition redis_XRead :: "stream \<Rightarrow> stream \<Rightarrow> last_id \<Rightarrow> nat \<Rightarrow> XMessage list option" where
  "redis_XRead at_call at_return lastID count =
     (let from = (case lastID of Dollar \<Rightarrow> last_generated at_call | EntryID i \<Rightarrow> i);
          found = filter (\<lambda>m. from < ID m) (entries at_return)
      in if found = [] then None else Some (take count found))"

definition wf_stream :: "stream \<Rightarrow> bool" where
  "wf_stream s =
     (sorted_wrt (<) (map ID (entries s)) \<and> list_all (\<lambda>m. ID m \<le> last_generated s) (entries s))"

section \<open>The tailing loop (listenRedisStream)\<close>

text \<open>\<open>v.(string)\<close> on a map lookup: a missing key gives \<open>nil\<close>, which is no string.\<close>

definition as_string :: "go_value option \<Rightarrow> string option" where
  "as_string v = (case v of Some (GoString s) \<Rightarrow> Some s | _ \<Rightarrow> None)"

text \<open>
  The body of the inner loop after \<open>lastID = msg.ID\<close>. \<open>Parse\<close> is \<open>uuid.Parse\<close>
  (\<open>None\<close> for an error).
\<close>

definition handle_msg :: "(string \<Rightarrow> uuid option) \<Rightarrow> Hub \<Rightarrow> XMessage \<Rightarrow> panic + Hub" where
  "handle_msg Parse h msg =
     (case as_string (Values msg ''target_user_id'') of
        None \<Rightarrow> Inr h
      | Some targetUserIDStr \<Rightarrow>
          (case as_string (Values msg ''payload'') of
             None \<Rightarrow> Inr h
           | Some payload \<Rightarrow>
               (case Parse targetUserIDStr of
                  None \<Rightarrow> Inr h
                | Some userID \<Rightarrow> broadcastToLocal h userID payload)))"

text \<open>
  The state of the loop and of what it reads. \<open>processed\<close> is a history variable: the
  IDs of the entries the loop body has run on, oldest first. A panic ends the process:
  \<open>crashed\<close> then holds it and nothing runs any more.
\<close>

record listener =
  log :: stream
  lastID :: last_id
  hub :: Hub
  processed :: "nat list"
  crashed :: "panic option"

fun range_messages :: "(string \<Rightarrow> uuid option) \<Rightarrow> XMessage list \<Rightarrow> listener \<Rightarrow> listener" where
  "range_messages Parse [] st = st"
| "range_messages Parse (msg # rest) st =
     (let st1 = st\<lparr>lastID := EntryID (ID msg), processed := processed st @ [ID msg]\<rparr> in
      case handle_msg Parse (hub st1) msg of
        Inl p \<Rightarrow> st1\<lparr>crashed := Some p\<rparr>
      | Inr h' \<Rightarrow> range_messages Parse rest (st1\<lparr>hub := h'\<rparr>))"

text \<open>
  One turn of the outer loop. What the other side does is given with it: the appends
  (by any process) that reach the stream before the call and while it blocks, and
  whether the call fails.
\<close>

record turn =
  before_call :: "(nat \<times> nat \<times> XAddArgs) list"
  while_blocked :: "(nat \<times> nat \<times> XAddArgs) list"
  read_fails :: bool

definition appends :: "(nat \<times> nat \<times> XAddArgs) list \<Rightarrow> stream \<Rightarrow> stream" where
  "appends xs s = fold (\<lambda>(delta, evict, args). redis_XAdd delta evict args) xs s"

definition listen_turn :: "(string \<Rightarrow> uuid option) \<Rightarrow> turn \<Rightarrow> listener \<Rightarrow> listener" where
  "listen_turn Parse t st =
     (if crashed st \<noteq> None then st
      else
        let at_call = appends (before_call t) (log st);
            at_return = appends (while_blocked t) at_call;
            st' = st\<lparr>log := at_return\<rparr>
        in if read_fails t then st'
           else (case redis_XRead at_call at_return (lastID st) 10 of
                   None \<Rightarrow> st'
                 | Some msgs \<Rightarrow> range_messages Parse msgs st'))"

text \<open>
  \<open>listenRedisStream\<close> for as many turns as are given: the loop itself never returns.
  It starts with \<open>lastID := "$"\<close> on whatever the stream holds then.
\<close>

definition listenRedisStream ::
  "(string \<Rightarrow> uuid option) \<Rightarrow> turn list \<Rightarrow> stream \<Rightarrow> Hub \<Rightarrow> listener" where
  "listenRedisStream Parse turns s h =
     fold (listen_turn Parse) turns
       \<lparr>log = s, lastID = Dollar, hub = h, processed = [], crashed = None\<rparr>"

section \<open>Publishing (SendToUser)\<close>

definition streamKey :: string where
  "streamKey = ''locolive:stream:routing''"

text \<open>
  What the hub holds of Redis and of the error log. A Redis command either reaches the
  server or fails with an error; which, and the server's choices on an append, is given
  with the call.
\<close>

record router =
  streams :: "string \<Rightarrow> stream"
  zerolog :: "string list"

datatype redis_reply = Added nat nat | Failed string

definition db_XAdd ::
  "redis_reply \<Rightarrow> XAddArgs \<Rightarrow> (string \<Rightarrow> stream) \<Rightarrow> string option \<times> (string \<Rightarrow> stream)" where
  "db_XAdd reply args db =
     (case reply of
        Failed e \<Rightarrow> (Some e, db)
      | Added delta evict \<Rightarrow>
          (None, db(Stream args := redis_XAdd delta evict args (db (Stream args)))))"

text \<open>
  \<open>SendToUser\<close> has no result in Go: the model returns the new state only.
  \<open>String\<close> is \<open>uuid.UUID.String\<close>.
\<close>

definition SendToUser ::
  "(uuid \<Rightarrow> string) \<Rightarrow> redis_reply \<Rightarrow> router \<Rightarrow> uuid \<Rightarrow> bytes \<Rightarrow> router" where
  "SendToUser String reply r userID message =
     (case db_XAdd reply
             \<lparr>Stream = streamKey,
              AddValues = [''target_user_id'' \<mapsto> GoString (String userID),
                           ''payload'' \<mapsto> GoString message],
              MaxLen = 100000,
              Approx = True\<rparr>
             (streams r) of
        (None, db') \<Rightarrow> r\<lparr>streams := db'\<rparr>
      | (Some e, db') \<Rightarrow>
          r\<lparr>streams := db',
            zerolog := zerolog r @ [''Failed to publish message to Redis Stream'']\<rparr>)"

section \<open>The connection and the two pumps (internal/realtime/client.go)\<close>

text \<open>
  Times are nanoseconds, as \<open>time.Duration\<close> counts them. A connection has the read
  limit and the deadlines set on it, whether it is open, and the frames written to it.
\<close>

type_synonym time = int

definition Second :: int where
  "Second = 1000000000"

datatype frame = TextMessage bytes | BinaryMessage bytes | PingMessage | PongMessage | CloseMessage

record conn =
  readLimit :: nat
  readDeadline :: time
  writeDeadline :: time
  conn_open :: bool
  wire :: "frame list"

text \<open>\<open>WSMessage\<close>; the payload is an \<open>interface{}\<close>, here the map the pump builds.\<close>

datatype payload_value = PUUID uuid | PString string

record WSMessage =
  Type :: string
  Payload :: "(string \<times> payload_value) list"
  SenderID :: uuid
  CreatedAt :: time

text \<open>
  What \<open>ReadPump\<close> can reach: the router, its connection, the hub's \<open>Unregister\<close>
  channel (the clients sent on it), and, for reference, the writes made to the
  relational store, for which a \<open>Client\<close> has no handle.
\<close>

record session =
  rt :: router
  cn :: conn
  Unregister :: "Client list"
  store_writes :: "string list"

text \<open>
  What arrives on the connection: a frame at a time, with the reply Redis would give to a
  publish made for it, or a failure of the network. After the last arrival nothing
  comes any more.
\<close>

datatype arrival = Arrives time frame redis_reply | NetworkError

text \<open>
  The body of the loop after a successful \<open>ReadMessage\<close>. \<open>Unmarshal\<close> is
  \<open>json.Unmarshal\<close> into the struct of \<open>type\<close> and \<open>receiver_id\<close> (\<open>None\<close> for
  an error), \<open>Marshal\<close> is \<open>json.Marshal\<close>.
\<close>

definition handle_frame ::
  "(bytes \<Rightarrow> (string \<times> uuid) option) \<Rightarrow> (WSMessage \<Rightarrow> bytes) \<Rightarrow> (uuid \<Rightarrow> string) \<Rightarrow>
   Client \<Rightarrow> bytes \<Rightarrow> redis_reply \<Rightarrow> session \<Rightarrow> session" where
  "handle_frame Unmarshal Marshal String c message reply w =
     (case Unmarshal message of
        None \<Rightarrow> w
      | Some (wsType, ReceiverID) \<Rightarrow>
          if wsType = ''typing'' then
            (let typingMsg = \<lparr>Type = ''typing'',
                              Payload = [(''user_id'', PUUID (UserID c)),
                                         (''username'', PString (Username c))],
                              SenderID = 0, CreatedAt = 0\<rparr>;
                 typingBytes = Marshal typingMsg
             in w\<lparr>rt := SendToUser String reply (rt w) ReceiverID typingBytes\<rparr>)
          else w)"

text \<open>The deferred function of \<open>ReadPump\<close>.\<close>

definition ReadPump_exit :: "Client \<Rightarrow> session \<Rightarrow> session" where
  "ReadPump_exit c w = w\<lparr>Unregister := Unregister w @ [c], cn := (cn w)\<lparr>conn_open := False\<rparr>\<rparr>"

text \<open>
  The loop, with \<open>ReadMessage\<close> as the websocket library runs it: a read fails once the
  read deadline has passed; a pong runs the pong handler and reading goes on; a ping is
  answered and reading goes on; a close frame and a data frame above the read limit are
  errors; any other data frame is returned to the loop.
\<close>

fun ReadPump_loop ::
  "(bytes \<Rightarrow> (string \<times> uuid) option) \<Rightarrow> (WSMessage \<Rightarrow> bytes) \<Rightarrow> (uuid \<Rightarrow> string) \<Rightarrow>
   Client \<Rightarrow> arrival list \<Rightarrow> session \<Rightarrow> session" where
  "ReadPump_loop U M S c [] w = ReadPump_exit c w"
| "ReadPump_loop U M S c (NetworkError # rest) w = ReadPump_exit c w"
| "ReadPump_loop U M S c (Arrives t f reply # rest) w =
     (if readDeadline (cn w) < t then ReadPump_exit c w
      else case f of
        PongMessage \<Rightarrow>
          ReadPump_loop U M S c rest (w\<lparr>cn := (cn w)\<lparr>readDeadline := t + 60 * Second\<rparr>\<rparr>)
      | PingMessage \<Rightarrow>
          ReadPump_loop U M S c rest (w\<lparr>cn := (cn w)\<lparr>wire := wire (cn w) @ [PongMessage]\<rparr>\<rparr>)
      | CloseMessage \<Rightarrow> ReadPump_exit c w
      | TextMessage message \<Rightarrow>
          if readLimit (cn w) < length message then ReadPump_exit c w
          else ReadPump_loop U M S c rest (handle_frame U M S c message reply w)
      | BinaryMessage message \<Rightarrow>
          if readLimit (cn w) < length message then ReadPump_exit c w
          else ReadPump_loop U M S c rest (handle_frame U M S c message reply w))"

text \<open>\<open>ReadPump\<close>, started at time \<open>now\<close>.\<close>

definition ReadPump ::
  "(bytes \<Rightarrow> (string \<times> uuid) option) \<Rightarrow> (WSMessage \<Rightarrow> bytes) \<Rightarrow> (uuid \<Rightarrow> string) \<Rightarrow>
   Client \<Rightarrow> time \<Rightarrow> arrival list \<Rightarrow> session \<Rightarrow> session" where
  "ReadPump U M S c now arrivals w =
     ReadPump_loop U M S c arrivals
       (w\<lparr>cn := (cn w)\<lparr>readLimit := 4096, readDeadline := now + 60 * Second\<rparr>\<rparr>)"

text \<open>
  \<open>message, ok := <-c.Send\<close>: \<open>None\<close> when the receive would block (nothing queued
  and the channel open).
\<close>

definition chan_recv :: "chan \<Rightarrow> (bytes \<times> bool \<times> chan) option" where
  "chan_recv ch =
     (case buf ch of
        m # ms \<Rightarrow> Some (m, True, ch\<lparr>buf := ms\<rparr>)
      | [] \<Rightarrow> if closed ch then Some ([], False, ch) else None)"

text \<open>
  One turn of the \<open>select\<close> of \<open>WritePump\<close>: the case that fires, the time, and
  whether the writes succeed (\<open>NextWriter\<close> and the writer's \<open>Close\<close>, or the
  ping).
\<close>

datatype pump_turn = FromSend time bool bool | FromTicker time bool

datatype pump_status = Running | Returned

text \<open>
  \<open>WritePump\<close> for the turns given. A turn on \<open>c.Send\<close> while the receive would
  block does not fire. On return, the deferred function closes the connection.
\<close>

fun WritePump :: "pump_turn list \<Rightarrow> chan \<times> conn \<Rightarrow> pump_status \<times> chan \<times> conn" where
  "WritePump [] (ch, k) = (Running, ch, k)"
| "WritePump (FromSend t writer_ok close_ok # rest) (ch, k) =
     (case chan_recv ch of
        None \<Rightarrow> WritePump rest (ch, k)
      | Some (message, ok, ch') \<Rightarrow>
          (let k1 = k\<lparr>writeDeadline := t + 10 * Second\<rparr> in
           if \<not> ok then
             (Returned, ch', k1\<lparr>wire := wire k1 @ [CloseMessage], conn_open := False\<rparr>)
           else if \<not> writer_ok then (Returned, ch', k1\<lparr>conn_open := False\<rparr>)
           else if \<not> close_ok then (Returned, ch', k1\<lparr>conn_open := False\<rparr>)
           else WritePump rest (ch', k1\<lparr>wire := wire k1 @ [TextMessage message]\<rparr>)))"
| "WritePump (FromTicker t ping_ok # rest) (ch, k) =
     (let k1 = k\<lparr>writeDeadline := t + 10 * Second\<rparr> in
      if \<not> ping_ok then (Returned, ch, k1\<lparr>conn_open := False\<rparr>)
      else WritePump rest (ch, k1\<lparr>wire := wire k1 @ [PingMessage]\<rparr>))"

text \<open>How many turns of a list are on \<open>c.Send\<close>.\<close>

fun send_turns :: "pump_turn list \<Rightarrow> nat" where
  "send_turns [] = 0"
| "send_turns (FromSend t a b # rest) = Suc (send_turns rest)"
| "send_turns (FromTicker t a # rest) = send_turns rest"

section \<open>The location update handler (updateLocation)\<close>

text \<open>
  A coordinate that passed binding is a finite \<open>float64\<close>, hence a number. The
  handler's collaborators (binding, the store, the movement monitor, the location
  service, the clock) are outside the sources: what each returns is given with the
  request, and the handler's calls to them are recorded in order.
\<close>

record updateLocationRequest =
  Latitude :: real
  Longitude :: real

record User =
  IsGhostMode :: bool
  GhostModeExpiresAt :: "time option"

record ValidationResult =
  Allowed :: bool
  ShouldBan :: bool

datatype call =
    GetUserByID uuid
  | ToggleGhostMode uuid bool "time option"
  | ValidateUserMovement string real real
  | BanUser uuid bool
  | CreateLocation uuid string real real time time
  | UpdateUserActivity uuid
  | UpdateUserLocation uuid real real

datatype response = JSON nat "(string \<times> string) list" | ErrorJSON nat string

record location_env =
  bound :: "string + updateLocationRequest"
  authUserID :: uuid
  userResult :: "string + User"
  nowGhost :: time
  validation :: ValidationResult
  nowBucket :: time
  createLocationErr :: "string option"
  updateUserActivityErr :: "string option"
  updateUserLocationErr :: "string option"

definition locationPrecision :: nat where
  "locationPrecision = 7"

definition bucketDuration :: int where
  "bucketDuration = 10 * 60 * Second"

definition locationTTL :: int where
  "locationTTL = 24 * 3600 * Second"

text \<open>
  The part of the handler from the geohash on (the code after the ghost mode block).
  \<open>Encode\<close> is \<open>geohash.Encode\<close>.
\<close>

definition check_and_persist ::
  "(real \<Rightarrow> real \<Rightarrow> string) \<Rightarrow> (uuid \<Rightarrow> string) \<Rightarrow> location_env \<Rightarrow>
   updateLocationRequest \<Rightarrow> response \<times> call list" where
  "check_and_persist Encode String env req =
     (let hash0 = Encode (Latitude req) (Longitude req);
          hash = (if locationPrecision < length hash0 then take locationPrecision hash0 else hash0);
          val = validation env;
          c1 = [ValidateUserMovement (String (authUserID env)) (Latitude req) (Longitude req)]
      in
        if \<not> Allowed val then
          (JSON 200 [(''status'', ''updated'')],
           c1 @ (if ShouldBan val then [BanUser (authUserID env) True] else []))
        else
          (let now = nowBucket env;
               bucketTime = now - now mod bucketDuration;
               expiresAt = now + locationTTL;
               c2 = c1 @ [CreateLocation (authUserID env) hash (Longitude req) (Latitude req)
                            bucketTime expiresAt]
           in case createLocationErr env of
                Some err \<Rightarrow> (ErrorJSON 500 err, c2)
              | None \<Rightarrow>
                  (JSON 200 [(''status'', ''updated'')],
                   c2 @ [UpdateUserActivity (authUserID env),
                         UpdateUserLocation (authUserID env) (Latitude req) (Longitude req)])))"

definition updateLocation ::
  "(real \<Rightarrow> real \<Rightarrow> string) \<Rightarrow> (uuid \<Rightarrow> string) \<Rightarrow> location_env \<Rightarrow> response \<times> call list" where
  "updateLocation Encode String env =
     (case bound env of
        Inl err \<Rightarrow> (ErrorJSON 400 err, [])
      | Inr req \<Rightarrow>
          (let c0 = [GetUserByID (authUserID env)] in
           case userResult env of
             Inl userErr \<Rightarrow>
               (let (rsp, cs) = check_and_persist Encode String env req in (rsp, c0 @ cs))
           | Inr user \<Rightarrow>
               if IsGhostMode user then
                 (if (case GhostModeExpiresAt user of
                        None \<Rightarrow> False
                      | Some expires \<Rightarrow> expires < nowGhost env)
                  then
                    (let (rsp, cs) = check_and_persist Encode String env req
                     in (rsp, c0 @ [ToggleGhostMode (authUserID env) False None] @ cs))
                  else (JSON 200 [(''status'', ''ghost'')], c0))
               else
                 (let (rsp, cs) = check_and_persist Encode String env req in (rsp, c0 @ cs))))"

text \<open>Whether a call stores a location.\<close>

fun is_CreateLocation :: "call \<Rightarrow> bool" where
  "is_CreateLocation (CreateLocation u g lng lat b e) = True"
| "is_CreateLocation _ = False"

fun is_ValidateUserMovement :: "call \<Rightarrow> bool" where
  "is_ValidateUserMovement (ValidateUserMovement u lat lng) = True"
| "is_ValidateUserMovement _ = False"

text \<open>
  Ghost mode as the handler sees it: the user was read, has ghost mode on, and the
  expiry is absent or not yet passed.
\<close>

definition ghost_active :: "location_env \<Rightarrow> bool" where
  "ghost_active env =
     (case userResult env of
        Inl e \<Rightarrow> False
      | Inr user \<Rightarrow>
          IsGhostMode user \<and>
          (case GhostModeExpiresAt user of None \<Rightarrow> True | Some expires \<Rightarrow> \<not> expires < nowGhost env))"

text \<open>Ghost mode on with the expiry passed.\<close>

definition ghost_expired :: "location_env \<Rightarrow> bool" where
  "ghost_expired env =
     (case userResult env of
        Inl e \<Rightarrow> False
      | Inr user \<Rightarrow>
          IsGhostMode user \<and>
          (case GhostModeExpiresAt user of None \<Rightarrow> False | Some expires \<Rightarrow> expires < nowGhost env))"

section \<open>The feed cache (getFeed, CreateStory, DeleteStory, invalidateFeedCache)\<close>

text \<open>
  The cache is Redis' key space of strings. A command reaches it or fails; the code
  ignores the failure of \<open>Set\<close> and \<open>Del\<close>.
\<close>

type_synonym cache = "string \<rightharpoonup> string"

definition redis_Get :: "bool \<Rightarrow> cache \<Rightarrow> string \<Rightarrow> string + string" where
  "redis_Get reached c key =
     (if \<not> reached then Inl ''connection''
      else case c key of None \<Rightarrow> Inl ''redis: nil'' | Some v \<Rightarrow> Inr v)"

definition redis_Set :: "bool \<Rightarrow> cache \<Rightarrow> string \<Rightarrow> string \<Rightarrow> cache" where
  "redis_Set reached c key v = (if reached then c(key \<mapsto> v) else c)"

definition redis_Del :: "bool \<Rightarrow> cache \<Rightarrow> string \<Rightarrow> cache" where
  "redis_Del reached c key = (if reached then c(key := None) else c)"

text \<open>The cache key of \<open>getFeed\<close> for the viewer's coordinate.\<close>

definition feedCacheKey :: "(real \<Rightarrow> real \<Rightarrow> string) \<Rightarrow> real \<Rightarrow> real \<Rightarrow> string" where
  "feedCacheKey Encode lat lng =
     (let userGeohash0 = Encode lat lng;
          userGeohash = (if 5 < length userGeohash0 then take 5 userGeohash0 else userGeohash0)
      in ''feed:'' @ userGeohash)"

datatype feed_response = CacheHit string | CacheMiss string | FeedError nat string

text \<open>
  \<open>getFeed\<close> after binding. \<open>computed\<close> is what the story service and
  \<open>json.Marshal\<close> give for the viewer: an error of the service, or the JSON of the
  response.
\<close>

definition getFeed ::
  "(real \<Rightarrow> real \<Rightarrow> string) \<Rightarrow> bool \<Rightarrow> bool \<Rightarrow> (string + string) \<Rightarrow> real \<Rightarrow> real \<Rightarrow> cache \<Rightarrow>
   feed_response \<times> cache" where
  "getFeed Encode get_reached set_reached computed lat lng c =
     (let cacheKey = feedCacheKey Encode lat lng in
      case redis_Get get_reached c cacheKey of
        Inr cachedData \<Rightarrow>
          if cachedData \<noteq> [] then (CacheHit cachedData, c)
          else (case computed of
                  Inl err \<Rightarrow> (FeedError 500 err, c)
                | Inr responseJSON \<Rightarrow>
                    (CacheMiss responseJSON, redis_Set set_reached c cacheKey responseJSON))
      | Inl e \<Rightarrow>
          (case computed of
             Inl err \<Rightarrow> (FeedError 500 err, c)
           | Inr responseJSON \<Rightarrow>
               (CacheMiss responseJSON, redis_Set set_reached c cacheKey responseJSON)))"

definition invalidateFeedCache :: "bool \<Rightarrow> cache \<Rightarrow> string \<Rightarrow> cache" where
  "invalidateFeedCache reached c geohash = redis_Del reached c (''feed:'' @ geohash)"

text \<open>
  The rows of the story table that matter here, by story ID, and what the story service
  is given besides its parameters: the results of the store and whether \<open>Del\<close>
  reaches the cache.
\<close>

record story_row =
  story_UserID :: uuid
  story_Geohash :: string
  story_Lat :: real
  story_Lng :: real

record story_world =
  stories :: "nat \<rightharpoonup> story_row"
  feed_cache :: cache

record story_env =
  getUserErr :: "string option"
  getStoryErr :: "string option"
  storeErr :: "string option"
  newID :: nat
  del_reached :: bool

text \<open>
  \<open>CreateStory\<close> of the story service, for user \<open>userID\<close> at a coordinate. The
  result of the movement check is not used by the code.
\<close>

definition CreateStory ::
  "(real \<Rightarrow> real \<Rightarrow> string) \<Rightarrow> story_env \<Rightarrow> uuid \<Rightarrow> real \<Rightarrow> real \<Rightarrow> story_world \<Rightarrow>
   (string + story_row) \<times> story_world" where
  "CreateStory Encode env userID lat lng w =
     (let hash = Encode lat lng in
      case getUserErr env of
        Some err \<Rightarrow> (Inl (''failed to get user: '' @ err), w)
      | None \<Rightarrow>
          (case storeErr env of
             Some err \<Rightarrow> (Inl err, w)
           | None \<Rightarrow>
               (let story = \<lparr>story_UserID = userID, story_Geohash = hash,
                             story_Lat = lat, story_Lng = lng\<rparr>;
                    w1 = w\<lparr>stories := (stories w)(newID env \<mapsto> story)\<rparr>;
                    userGeohash = (if 5 < length hash then take 5 hash else hash)
                in (Inr story,
                    w1\<lparr>feed_cache :=
                         invalidateFeedCache (del_reached env) (feed_cache w1) userGeohash\<rparr>))))"

text \<open>\<open>DeleteStory\<close> of the story service.\<close>

definition DeleteStory ::
  "story_env \<Rightarrow> nat \<Rightarrow> uuid \<Rightarrow> story_world \<Rightarrow> string option \<times> story_world" where
  "DeleteStory env storyID userID w =
     (case getStoryErr env of
        Some err \<Rightarrow> (Some err, w)
      | None \<Rightarrow>
          (case stories w storyID of
             None \<Rightarrow> (Some ''story not found'', w)
           | Some story \<Rightarrow>
               if story_UserID story \<noteq> userID then
                 (Some ''you can only delete your own stories'', w)
               else
                 (case storeErr env of
                    Some err \<Rightarrow> (Some err, w)
                  | None \<Rightarrow>
                      (let w1 = w\<lparr>stories := (stories w)(storyID := None)\<rparr>;
                           userGeohash0 = story_Geohash story;
                           userGeohash =
                             (if 5 < length userGeohash0 then take 5 userGeohash0
                              else userGeohash0)
                       in (None,
                           w1\<lparr>feed_cache :=
                                invalidateFeedCache (del_reached env) (feed_cache w1)
                                  userGeohash\<rparr>)))))"

section \<open>Auxiliary notions for the statements\<close>

text \<open>
  What one pass of the loop of \<open>broadcastToLocal\<close> makes of an open channel: the
  message queued when there is room, the channel closed when there is none.
\<close>

definition after_attempt :: "bytes \<Rightarrow> chan \<Rightarrow> chan" where
  "after_attempt m ch = (if has_room ch then ch\<lparr>buf := buf ch @ [m]\<rparr> else ch\<lparr>closed := True\<rparr>)"

text \<open>The cursor of the tailing loop is \<open>"$"\<close> or the last entry processed.\<close>

definition cursor_ok :: "listener \<Rightarrow> bool" where
  "cursor_ok st =
     (lastID st = (if processed st = [] then Dollar else EntryID (last (processed st))))"

text \<open>
  What every turn of the tailing loop keeps, for a stream whose last generated ID was
  \<open>g0\<close> when the loop started.
\<close>

definition listen_inv :: "nat \<Rightarrow> listener \<Rightarrow> bool" where
  "listen_inv g0 st =
     (wf_stream (log st) \<and> g0 \<le> last_generated (log st) \<and>
      sorted_wrt (<) (processed st) \<and> (\<forall>i \<in> set (processed st). g0 < i) \<and> cursor_ok st)"

text \<open>Whether an arrival is a pong frame.\<close>

fun is_pong :: "arrival \<Rightarrow> bool" where
  "is_pong (Arrives t PongMessage reply) = True"
| "is_pong _ = False"

text \<open>The message \<open>ReadPump\<close> builds for a typing frame of client \<open>c\<close>.\<close>

definition typingMsg :: "Client \<Rightarrow> WSMessage" where
  "typingMsg c = \<lparr>Type = ''typing'',
                  Payload = [(''user_id'', PUUID (UserID c)), (''username'', PString (Username c))],
                  SenderID = 0, CreatedAt = 0\<rparr>"

text \<open>
  What the store answers to \<open>GetUserByID\<close> for a user whose row is \<open>row\<close>: the
  error of the read when it fails, the row otherwise.
\<close>

definition GetUserByID_answer :: "string option \<Rightarrow> User \<Rightarrow> string + User" where
  "GetUserByID_answer readErr row = (case readErr of Some e \<Rightarrow> Inl e | None \<Rightarrow> Inr row)"

section \<open>Small instances, for the examples\<close>

text \<open>
  A hub with two sessions of user 1, the first with a full queue, and one session of
  user 2, and a connection.
\<close>

definition ex_A :: Client where
  "ex_A = \<lparr>UserID = 1, Conn = 10, Username = ''ann''\<rparr>"

definition ex_B :: Client where
  "ex_B = \<lparr>UserID = 1, Conn = 11, Username = ''ann''\<rparr>"

definition ex_C :: Client where
  "ex_C = \<lparr>UserID = 2, Conn = 12, Username = ''bob''\<rparr>"

definition ex_chans :: "Client \<Rightarrow> chan" where
  "ex_chans c = (if c = ex_A then \<lparr>buf = [''old''], cap = 1, closed = False\<rparr>
                 else \<lparr>buf = [], cap = 2, closed = False\<rparr>)"

definition ex_hub :: Hub where
  "ex_hub = register (register (register (NewHub ex_chans) ex_A) ex_B) ex_C"

definition ex_conn :: conn where
  "ex_conn = \<lparr>readLimit = 4096, readDeadline = 60 * Second, writeDeadline = 0,
              conn_open = True, wire = []\<rparr>"

text \<open>
  The hub after a delivery for user 1 has dropped the only session of user 1, the one
  with the full queue: an empty set under the user's key, the channel closed.
\<close>

definition ex_dropped :: Hub where
  "ex_dropped =
     \<lparr>clients = [1 \<mapsto> []],
      Send = ex_chans(ex_A := \<lparr>buf = [''old''], cap = 1, closed = True\<rparr>)\<rparr>"

text \<open>
  A stream that holds one entry when the loop starts, three turns of the loop, and an
  entry for user 1. The parser knows two users.
\<close>

definition ex_Parse :: "string \<Rightarrow> uuid option" where
  "ex_Parse s = (if s = ''u1'' then Some 1 else if s = ''u2'' then Some 2 else None)"

definition ex_msg :: XMessage where
  "ex_msg = \<lparr>ID = 7, Values = [''target_user_id'' \<mapsto> GoString ''u1'',
                                ''payload'' \<mapsto> GoString ''hello'']\<rparr>"

definition ex_args :: XAddArgs where
  "ex_args = \<lparr>Stream = ''locolive:stream:routing'',
              AddValues = [''target_user_id'' \<mapsto> GoString ''u1'',
                           ''payload'' \<mapsto> GoString ''hello''],
              MaxLen = 100000, Approx = True\<rparr>"

definition ex_stream :: stream where
  "ex_stream = \<lparr>entries = [\<lparr>ID = 5, Values = AddValues ex_args\<rparr>], last_generated = 5\<rparr>"

definition ex_turns :: "turn list" where
  "ex_turns =
     [\<lparr>before_call = [(0, 0, ex_args)], while_blocked = [(0, 0, ex_args)], read_fails = False\<rparr>,
      \<lparr>before_call = [], while_blocked = [], read_fails = True\<rparr>,
      \<lparr>before_call = [], while_blocked = [(2, 0, ex_args)], read_fails = False\<rparr>]"

text \<open>
  Stand-ins for the JSON and UUID functions, and a session whose stream is empty.
\<close>

definition ex_Unmarshal :: "bytes \<Rightarrow> (string \<times> uuid) option" where
  "ex_Unmarshal m =
     (if m = ''T'' then Some (''typing'', 2)
      else if m = ''R'' then Some (''read'', 2)
      else None)"

definition ex_Marshal :: "WSMessage \<Rightarrow> bytes" where
  "ex_Marshal m = Type m @ '':'' @ concat (map fst (Payload m))"

definition ex_String :: "uuid \<Rightarrow> string" where
  "ex_String u = (if u = 1 then ''u1'' else if u = 2 then ''u2'' else ''u?'')"

definition ex_session :: session where
  "ex_session =
     \<lparr>rt = \<lparr>streams = (\<lambda>k. \<lparr>entries = [], last_generated = 0\<rparr>), zerolog = []\<rparr>,
      cn = \<lparr>readLimit = 0, readDeadline = 0, writeDeadline = 0, conn_open = True, wire = []\<rparr>,
      Unregister = [], store_writes = []\<rparr>"

text \<open>
  A geohash function with two points of one five-character cell, a location update that
  the monitor rejects with a ban, two users in ghost mode, and a story store with one
  cached feed.
\<close>

definition ex_Encode :: "real \<Rightarrow> real \<Rightarrow> string" where
  "ex_Encode lat lng =
     (if lat < 0 then ''k7fqv2m8x1zb'' else if lng < 10 then ''u4pruydqqvj8'' else ''u4pruz00abcd'')"

definition ex_ghost_user :: User where
  "ex_ghost_user = \<lparr>IsGhostMode = True, GhostModeExpiresAt = Some 2000\<rparr>"

definition ex_expired_user :: User where
  "ex_expired_user = \<lparr>IsGhostMode = True, GhostModeExpiresAt = Some 500\<rparr>"

definition ex_env :: location_env where
  "ex_env =
     \<lparr>bound = Inr \<lparr>Latitude = 10, Longitude = 20\<rparr>,
      authUserID = 1,
      userResult = Inr \<lparr>IsGhostMode = False, GhostModeExpiresAt = None\<rparr>,
      nowGhost = 1000,
      validation = \<lparr>Allowed = False, ShouldBan = True\<rparr>,
      nowBucket = 1000,
      createLocationErr = None,
      updateUserActivityErr = None,
      updateUserLocationErr = None\<rparr>"

definition ex_story_env :: story_env where
  "ex_story_env = \<lparr>getUserErr = None, getStoryErr = None, storeErr = None, newID = 7,
                   del_reached = True\<rparr>"

definition ex_world :: story_world where
  "ex_world = \<lparr>stories = Map.empty, feed_cache = [''feed:u4pru'' \<mapsto> ''cached feed'']\<rparr>"

section \<open>The registry and local delivery\<close>

lemma range_clients_eq:
  "distinct todo \<Longrightarrow> \<forall>c \<in> set todo. \<not> closed (send c) \<Longrightarrow>
   range_clients m todo (send, inner) =
     Inr (\<lambda>d. if d \<in> set todo then after_attempt m (send d) else send d,
          filter (\<lambda>d. d \<notin> set todo \<or> has_room (send d)) inner)"
proof (induction todo arbitrary: send inner)
  case Nil
  then show ?case by simp
next
  case (Cons c rest)
  have open_c: "\<not> closed (send c)" using Cons.prems by simp
  have notin: "c \<notin> set rest" and dist: "distinct rest" using Cons.prems by simp_all
  show ?case
  proof (cases "has_room (send c)")
    case True
    let ?send1 = "send(c := (send c)\<lparr>buf := buf (send c) @ [m]\<rparr>)"
    have pre: "\<forall>d \<in> set rest. \<not> closed (?send1 d)" using Cons.prems notin by auto
    have "range_clients m (c # rest) (send, inner) = range_clients m rest (?send1, inner)"
      using True open_c by (simp add: chan_try_send_def has_room_def)
    also have "\<dots> = Inr (\<lambda>d. if d \<in> set rest then after_attempt m (?send1 d) else ?send1 d,
          filter (\<lambda>d. d \<notin> set rest \<or> has_room (?send1 d)) inner)"
      by (rule Cons.IH [OF dist pre])
    also have "(\<lambda>d. if d \<in> set rest then after_attempt m (?send1 d) else ?send1 d) =
        (\<lambda>d. if d \<in> set (c # rest) then after_attempt m (send d) else send d)"
      using notin True by (auto simp: after_attempt_def fun_eq_iff)
    also have "filter (\<lambda>d. d \<notin> set rest \<or> has_room (?send1 d)) inner =
        filter (\<lambda>d. d \<notin> set (c # rest) \<or> has_room (send d)) inner"
      using notin True by (intro filter_cong) auto
    finally show ?thesis .
  next
    case False
    let ?send1 = "send(c := (send c)\<lparr>closed := True\<rparr>)"
    have pre: "\<forall>d \<in> set rest. \<not> closed (?send1 d)" using Cons.prems notin by auto
    have "range_clients m (c # rest) (send, inner) =
        range_clients m rest (?send1, removeAll c inner)"
      using False open_c by (simp add: chan_try_send_def chan_close_def has_room_def)
    also have "\<dots> = Inr (\<lambda>d. if d \<in> set rest then after_attempt m (?send1 d) else ?send1 d,
          filter (\<lambda>d. d \<notin> set rest \<or> has_room (?send1 d)) (removeAll c inner))"
      by (rule Cons.IH [OF dist pre])
    also have "(\<lambda>d. if d \<in> set rest then after_attempt m (?send1 d) else ?send1 d) =
        (\<lambda>d. if d \<in> set (c # rest) then after_attempt m (send d) else send d)"
      using notin False by (auto simp: after_attempt_def fun_eq_iff)
    also have "filter (\<lambda>d. d \<notin> set rest \<or> has_room (?send1 d)) (removeAll c inner) =
        filter (\<lambda>d. d \<notin> set (c # rest) \<or> has_room (send d)) inner"
      using notin False unfolding removeAll_filter_not_eq filter_filter
      by (intro filter_cong) auto
    finally show ?thesis .
  qed
qed


lemma hub_invD:
  "hub_inv h \<Longrightarrow> clients h u = Some cs \<Longrightarrow>
   distinct cs \<and> (\<forall>c \<in> set cs. UserID c = u \<and> \<not> closed (Send h c))"
  by (simp add: hub_inv_def)

lemma broadcastToLocal_eq:
  assumes inv: "hub_inv h" and reg: "clients h u = Some cs"
  shows "broadcastToLocal h u m =
     Inr (h\<lparr>clients := (clients h)(u \<mapsto> filter (\<lambda>d. has_room (Send h d)) cs),
            Send := (\<lambda>d. if d \<in> set cs then after_attempt m (Send h d) else Send h d)\<rparr>)"
proof -
  have d: "distinct cs" and o: "\<forall>c \<in> set cs. \<not> closed (Send h c)"
    using inv reg unfolding hub_inv_def by blast+
  have f: "filter (\<lambda>d. d \<notin> set cs \<or> has_room (Send h d)) cs = filter (\<lambda>d. has_room (Send h d)) cs"
    by (intro filter_cong) auto
  show ?thesis
    unfolding broadcastToLocal_def using reg
    by (simp add: range_clients_eq [OF d o] cong: filter_cong)
qed

lemma broadcastToLocal_absent:
  "clients h u = None \<Longrightarrow> broadcastToLocal h u m = Inr h"
  by (simp add: broadcastToLocal_def)

lemma hub_inv_broadcastToLocal:
  assumes inv: "hub_inv h" and res: "broadcastToLocal h u m = Inr h'"
  shows "hub_inv h'"
proof (cases "clients h u")
  case None
  then show ?thesis using inv res by (simp add: broadcastToLocal_absent)
next
  case (Some cs)
  have h': "h' = h\<lparr>clients := (clients h)(u \<mapsto> filter (\<lambda>d. has_room (Send h d)) cs),
            Send := (\<lambda>d. if d \<in> set cs then after_attempt m (Send h d) else Send h d)\<rparr>"
    using broadcastToLocal_eq [OF inv Some, of m] res by simp
  show ?thesis
    unfolding hub_inv_def
  proof (intro allI impI)
    fix v ds assume a: "clients h' v = Some ds"
    show "distinct ds \<and> (\<forall>c\<in>set ds. UserID c = v \<and> \<not> closed (Send h' c))"
    proof (cases "v = u")
      case True
      then have ds: "ds = filter (\<lambda>d. has_room (Send h d)) cs" using a h' by simp
      have "distinct cs" "\<forall>c\<in>set cs. UserID c = u \<and> \<not> closed (Send h c)"
        using inv Some unfolding hub_inv_def by blast+
      then show ?thesis using ds True h' by (auto simp: after_attempt_def)
    next
      case False
      then have old: "clients h v = Some ds" using a h' by simp
      then have p: "distinct ds" "\<forall>c\<in>set ds. UserID c = v \<and> \<not> closed (Send h c)"
        using inv unfolding hub_inv_def by blast+
      have "\<forall>c\<in>set cs. UserID c = u" using inv Some unfolding hub_inv_def by blast
      then have "\<forall>c\<in>set ds. c \<notin> set cs" using p False by auto
      then show ?thesis using p h' by auto
    qed
  qed
qed

lemma hub_inv_NewHub: "hub_inv (NewHub chans)"
  by (simp add: hub_inv_def NewHub_def)

lemma clients_register:
  "clients (register h c) v =
     (if v = UserID c
      then Some (set_key (case clients h (UserID c) of None \<Rightarrow> [] | Some cs \<Rightarrow> cs) c)
      else clients h v)"
  by (simp add: register_def Let_def)

lemma Send_register: "Send (register h c) = Send h"
  by (simp add: register_def Let_def)

lemma hub_inv_register:
  assumes inv: "hub_inv h" and op: "\<not> closed (Send h c)"
  shows "hub_inv (register h c)"
  unfolding hub_inv_def Send_register
proof (intro allI impI)
  fix v ds assume a: "clients (register h c) v = Some ds"
  show "distinct ds \<and> (\<forall>x\<in>set ds. UserID x = v \<and> \<not> closed (Send h x))"
  proof (cases "v = UserID c")
    case True
    show ?thesis
    proof (cases "clients h (UserID c)")
      case None
      have "ds = [c]" using a None unfolding clients_register True by (simp add: set_key_def)
      then show ?thesis using op unfolding True by simp
    next
      case (Some cs)
      have p: "distinct cs" "\<forall>x\<in>set cs. UserID x = UserID c \<and> \<not> closed (Send h x)"
        using hub_invD [OF inv Some] by simp_all
      have ds: "ds = set_key cs c" using a Some unfolding clients_register True by simp
      show ?thesis
      proof (cases "c \<in> set cs")
        case True
        then have "ds = cs" using ds by (simp add: set_key_def)
        then show ?thesis using p unfolding \<open>v = UserID c\<close> by simp
      next
        case False
        then have "ds = cs @ [c]" using ds by (simp add: set_key_def)
        then show ?thesis using p op False unfolding \<open>v = UserID c\<close> by auto
      qed
    qed
  next
    case False
    then have "clients h v = Some ds" using a unfolding clients_register by simp
    then show ?thesis using hub_invD [OF inv] by simp
  qed
qed

lemma registered_iff:
  assumes inv: "hub_inv h"
  shows "registered h c = (\<exists>cs. clients h (UserID c) = Some cs \<and> c \<in> set cs)"
proof
  assume "registered h c"
  then obtain u cs where a: "clients h u = Some cs" "c \<in> set cs"
    unfolding registered_def by blast
  have "UserID c = u" using hub_invD [OF inv a(1)] a(2) by simp
  then show "\<exists>cs. clients h (UserID c) = Some cs \<and> c \<in> set cs" using a by blast
next
  assume "\<exists>cs. clients h (UserID c) = Some cs \<and> c \<in> set cs"
  then show "registered h c" unfolding registered_def by blast
qed

lemma unregister_registered:
  assumes inv: "hub_inv h" and reg: "clients h (UserID c) = Some cs" and mem: "c \<in> set cs"
  shows "unregister h c =
     Inr (h\<lparr>clients := (if removeAll c cs = [] then (clients h)(UserID c := None)
                         else (clients h)(UserID c \<mapsto> removeAll c cs)),
            Send := (Send h)(c := (Send h c)\<lparr>closed := True\<rparr>)\<rparr>)"
proof -
  have "\<not> closed (Send h c)" using hub_invD [OF inv reg] mem by simp
  then show ?thesis using reg mem by (simp add: unregister_def chan_close_def)
qed

lemma unregister_unregistered:
  assumes inv: "hub_inv h" and nreg: "\<not> registered h c"
  shows "unregister h c = Inr h"
  using nreg unfolding registered_def unregister_def
  by (auto split: option.splits)

lemma hub_inv_unregister:
  assumes inv: "hub_inv h" and res: "unregister h c = Inr h'"
  shows "hub_inv h' \<and> \<not> registered h' c"
proof (cases "registered h c")
  case False
  then show ?thesis using unregister_unregistered [OF inv False] res inv by simp
next
  case True
  then obtain cs where reg: "clients h (UserID c) = Some cs" and mem: "c \<in> set cs"
    using registered_iff [OF inv] by blast
  have h': "h' = h\<lparr>clients := (if removeAll c cs = [] then (clients h)(UserID c := None)
                         else (clients h)(UserID c \<mapsto> removeAll c cs)),
            Send := (Send h)(c := (Send h c)\<lparr>closed := True\<rparr>)\<rparr>"
    using unregister_registered [OF inv reg mem] res by simp
  have own: "\<And>v ds. clients h v = Some ds \<Longrightarrow> c \<in> set ds \<Longrightarrow> v = UserID c"
    using hub_invD [OF inv] by simp
  have inv': "hub_inv h'"
    unfolding hub_inv_def
  proof (intro allI impI)
    fix v ds assume a: "clients h' v = Some ds"
    show "distinct ds \<and> (\<forall>x\<in>set ds. UserID x = v \<and> \<not> closed (Send h' x))"
    proof (cases "v = UserID c")
      case True
      then have ds: "ds = removeAll c cs" using a h' by (auto split: if_splits)
      have "distinct cs" "\<forall>x\<in>set cs. UserID x = UserID c \<and> \<not> closed (Send h x)"
        using hub_invD [OF inv reg] by simp_all
      then show ?thesis using ds True h' by (auto simp: distinct_removeAll)
    next
      case False
      then have old: "clients h v = Some ds" using a h' by (auto split: if_splits)
      have p: "distinct ds" "\<forall>x\<in>set ds. UserID x = v \<and> \<not> closed (Send h x)"
        using hub_invD [OF inv old] by simp_all
      have "c \<notin> set ds" using own [OF old] False by blast
      then show ?thesis using p h' by auto
    qed
  qed
  have "\<not> registered h' c"
  proof
    assume "registered h' c"
    then obtain ds where "clients h' (UserID c) = Some ds" "c \<in> set ds"
      using registered_iff [OF inv'] by blast
    then show False using h' by (auto split: if_splits)
  qed
  then show ?thesis using inv' by simp
qed


lemma ex_distinct: "ex_A \<noteq> ex_B" "ex_A \<noteq> ex_C" "ex_B \<noteq> ex_C"
  by (simp_all add: ex_A_def ex_B_def ex_C_def)

lemma ex_hub_inv: "hub_inv ex_hub"
  unfolding ex_hub_def
  by (intro hub_inv_register hub_inv_NewHub)
     (simp_all add: Send_register NewHub_def ex_chans_def)

lemma ex_hub_clients:
  "clients ex_hub 1 = Some [ex_A, ex_B]" "clients ex_hub 2 = Some [ex_C]"
  using ex_distinct
  by (simp_all add: ex_hub_def clients_register NewHub_def set_key_def ex_A_def ex_B_def ex_C_def)

lemma ex_hub_Send: "Send ex_hub = ex_chans"
  by (simp add: ex_hub_def Send_register NewHub_def)

text \<open>
  C3. When \<open>broadcastToLocal\<close> meets a session of the user whose channel cannot take
  the payload at once, it does not wait: the call returns a state without a panic. In it
  that session's channel is closed, nothing was queued on it, and the session is in no
  set of the registry; every other session of the user has had its own attempt (queued
  when there was room, closed when not), and the user's set holds exactly the sessions
  that had room. The function has no error result.
\<close>

theorem broadcastToLocal_full_queue:
  assumes inv: "hub_inv h" and reg: "clients h u = Some cs" and mem: "c \<in> set cs"
    and full: "\<not> has_room (Send h c)"
  shows "\<exists>h'. broadcastToLocal h u m = Inr h' \<and>
     Send h' c = (Send h c)\<lparr>closed := True\<rparr> \<and>
     \<not> registered h' c \<and>
     clients h' u = Some (filter (\<lambda>d. has_room (Send h d)) cs) \<and>
     (\<forall>d \<in> set cs. has_room (Send h d) \<longrightarrow>
        Send h' d = (Send h d)\<lparr>buf := buf (Send h d) @ [m]\<rparr>) \<and>
     (\<forall>d \<in> set cs. \<not> has_room (Send h d) \<longrightarrow> Send h' d = (Send h d)\<lparr>closed := True\<rparr>)"
proof -
  let ?h' = "h\<lparr>clients := (clients h)(u \<mapsto> filter (\<lambda>d. has_room (Send h d)) cs),
            Send := (\<lambda>d. if d \<in> set cs then after_attempt m (Send h d) else Send h d)\<rparr>"
  have eq: "broadcastToLocal h u m = Inr ?h'" by (rule broadcastToLocal_eq [OF inv reg])
  have inv': "hub_inv ?h'" by (rule hub_inv_broadcastToLocal [OF inv eq])
  have own: "UserID c = u" using hub_invD [OF inv reg] mem by simp
  have "\<not> registered ?h' c"
    unfolding registered_iff [OF inv'] own using full by simp
  moreover have "Send ?h' c = (Send h c)\<lparr>closed := True\<rparr>"
    using mem full by (simp add: after_attempt_def)
  moreover have "clients ?h' u = Some (filter (\<lambda>d. has_room (Send h d)) cs)" by simp
  moreover have "\<forall>d \<in> set cs. has_room (Send h d) \<longrightarrow>
        Send ?h' d = (Send h d)\<lparr>buf := buf (Send h d) @ [m]\<rparr>"
    by (simp add: after_attempt_def)
  moreover have "\<forall>d \<in> set cs. \<not> has_room (Send h d) \<longrightarrow>
        Send ?h' d = (Send h d)\<lparr>closed := True\<rparr>"
    by (simp add: after_attempt_def)
  ultimately show ?thesis using eq by blast
qed

theorem broadcastToLocal_full_queue_witness:
  "hub_inv ex_hub \<and> clients ex_hub 1 = Some [ex_A, ex_B] \<and> ex_A \<in> set [ex_A, ex_B] \<and>
   \<not> has_room (Send ex_hub ex_A) \<and>
   (\<exists>h'. broadcastToLocal ex_hub 1 ''hello'' = Inr h' \<and>
      Send h' ex_A = \<lparr>buf = [''old''], cap = 1, closed = True\<rparr> \<and>
      \<not> registered h' ex_A \<and>
      clients h' 1 = Some [ex_B] \<and>
      Send h' ex_B = \<lparr>buf = [''hello''], cap = 2, closed = False\<rparr>)"
proof -
  have full: "\<not> has_room (Send ex_hub ex_A)"
    by (simp add: ex_hub_Send ex_chans_def has_room_def)
  have mem: "ex_A \<in> set [ex_A, ex_B]" by simp
  have roomB: "has_room (Send ex_hub ex_B)"
    using ex_distinct by (simp add: ex_hub_Send ex_chans_def has_room_def)
  obtain h' where r: "broadcastToLocal ex_hub 1 ''hello'' = Inr h'"
      "Send h' ex_A = (Send ex_hub ex_A)\<lparr>closed := True\<rparr>"
      "\<not> registered h' ex_A"
      "clients h' 1 = Some (filter (\<lambda>d. has_room (Send ex_hub d)) [ex_A, ex_B])"
      "\<forall>d \<in> set [ex_A, ex_B]. has_room (Send ex_hub d) \<longrightarrow>
        Send h' d = (Send ex_hub d)\<lparr>buf := buf (Send ex_hub d) @ [''hello'']\<rparr>"
    using broadcastToLocal_full_queue [OF ex_hub_inv ex_hub_clients(1) mem full, of "''hello''"]
    by blast
  have a: "Send h' ex_A = \<lparr>buf = [''old''], cap = 1, closed = True\<rparr>"
    using r(2) by (simp add: ex_hub_Send ex_chans_def)
  have b: "clients h' 1 = Some [ex_B]" using r(4) full roomB by simp
  have c: "Send h' ex_B = \<lparr>buf = [''hello''], cap = 2, closed = False\<rparr>"
    using r(5) roomB ex_distinct by (simp add: ex_hub_Send ex_chans_def)
  show ?thesis using ex_hub_inv ex_hub_clients(1) full r(1) r(3) a b c by simp
qed


section \<open>Unregistering and the write pump\<close>

lemma WritePump_closes_when_closed:
  "closed ch \<Longrightarrow> length (buf ch) < send_turns turns \<Longrightarrow>
   fst (WritePump turns (ch, k)) = Returned \<and>
   \<not> conn_open (snd (snd (WritePump turns (ch, k))))"
proof (induction turns arbitrary: ch k)
  case Nil
  then show ?case by simp
next
  case (Cons t turns)
  show ?case
  proof (cases t)
    case (FromSend tm wok cok)
    show ?thesis
    proof (cases "buf ch")
      case Nil
      then show ?thesis using Cons.prems FromSend by (simp add: chan_recv_def)
    next
      case (Cons m ms)
      have c': "closed (ch\<lparr>buf := ms\<rparr>)" using Cons.prems by simp
      have l': "length (buf (ch\<lparr>buf := ms\<rparr>)) < send_turns turns"
        using Cons.prems Cons FromSend by simp
      show ?thesis
        using Cons FromSend Cons.IH [OF c' l'] by (simp add: chan_recv_def Let_def)
    qed
  next
    case (FromTicker tm pok)
    then have l': "length (buf ch) < send_turns turns" using Cons.prems by simp
    show ?thesis
      using FromTicker Cons.IH [OF Cons.prems(1) l'] by (simp add: Let_def)
  qed
qed

lemma WritePump_drained:
  "closed ch \<Longrightarrow> buf ch = [] \<Longrightarrow>
   WritePump (FromSend t a b # rest) (ch, k) =
     (Returned, ch,
      k\<lparr>writeDeadline := t + 10 * Second, conn_open := False, wire := wire k @ [CloseMessage]\<rparr>)"
  by (simp add: chan_recv_def Let_def)

lemma removeAll_empty_iff: "(removeAll x xs = []) = (set xs \<subseteq> {x})"
  by (induction xs) auto

text \<open>
  C5, as the code has it. On a registry that satisfies the invariant, the
  \<open>Unregister\<close> branch of \<open>Run\<close> returns without a panic and the session is then
  in no set of the registry. If the session was still registered, its channel was open
  and is now closed (closed once: a second unregister changes nothing and does not close
  again), and the user's key is gone when this was the only session in the user's set
  and holds the other sessions otherwise. \<open>WritePump\<close> on the closed channel
  returns, with the connection closed, as soon as it has had more turns on \<open>c.Send\<close>
  than messages were still queued; with nothing queued its next such turn writes the
  close frame and returns. If the session was no longer registered (a failed enqueue had
  dropped it and closed its channel), the hub is unchanged: nothing is closed again and
  the user's key stays as it was.
\<close>

theorem unregister_removes_session:
  assumes inv: "hub_inv h"
  shows "\<exists>h'. unregister h c = Inr h' \<and> \<not> registered h' c \<and>
     (registered h c \<longrightarrow>
        \<not> closed (Send h c) \<and> Send h' c = (Send h c)\<lparr>closed := True\<rparr> \<and>
        unregister h' c = Inr h' \<and>
        (\<forall>cs. clients h (UserID c) = Some cs \<longrightarrow>
           clients h' (UserID c) = (if set cs = {c} then None else Some (removeAll c cs))) \<and>
        (\<forall>turns k. length (buf (Send h' c)) < send_turns turns \<longrightarrow>
           fst (WritePump turns (Send h' c, k)) = Returned \<and>
           \<not> conn_open (snd (snd (WritePump turns (Send h' c, k))))) \<and>
        (\<forall>t a b rest k. buf (Send h c) = [] \<longrightarrow>
           WritePump (FromSend t a b # rest) (Send h' c, k) =
             (Returned, Send h' c,
              k\<lparr>writeDeadline := t + 10 * Second, conn_open := False,
                wire := wire k @ [CloseMessage]\<rparr>))) \<and>
     (\<not> registered h c \<longrightarrow> h' = h)"
proof (cases "registered h c")
  case False
  have "unregister h c = Inr h" by (rule unregister_unregistered [OF inv False])
  then show ?thesis using False by simp
next
  case True
  then obtain cs where reg: "clients h (UserID c) = Some cs" and mem: "c \<in> set cs"
    using registered_iff [OF inv] by blast
  let ?h' = "h\<lparr>clients := (if removeAll c cs = [] then (clients h)(UserID c := None)
                         else (clients h)(UserID c \<mapsto> removeAll c cs)),
            Send := (Send h)(c := (Send h c)\<lparr>closed := True\<rparr>)\<rparr>"
  have eq: "unregister h c = Inr ?h'" by (rule unregister_registered [OF inv reg mem])
  have after: "hub_inv ?h' \<and> \<not> registered ?h' c" by (rule hub_inv_unregister [OF inv eq])
  have opn: "\<not> closed (Send h c)" using hub_invD [OF inv reg] mem by simp
  have again: "unregister ?h' c = Inr ?h'"
    using unregister_unregistered after by blast
  have last: "(removeAll c cs = []) = (set cs = {c})"
    using mem removeAll_empty_iff [of c cs] by auto
  have cl: "\<forall>cs'. clients h (UserID c) = Some cs' \<longrightarrow>
           clients ?h' (UserID c) = (if set cs' = {c} then None else Some (removeAll c cs'))"
    using last reg by simp
  have sd: "Send ?h' c = (Send h c)\<lparr>closed := True\<rparr>" by simp
  have pump: "\<forall>turns k. length (buf (Send ?h' c)) < send_turns turns \<longrightarrow>
           fst (WritePump turns (Send ?h' c, k)) = Returned \<and>
           \<not> conn_open (snd (snd (WritePump turns (Send ?h' c, k))))"
    unfolding sd by (intro allI impI WritePump_closes_when_closed) simp_all
  have drained: "\<forall>t a b rest k. buf (Send h c) = [] \<longrightarrow>
           WritePump (FromSend t a b # rest) (Send ?h' c, k) =
             (Returned, Send ?h' c,
              k\<lparr>writeDeadline := t + 10 * Second, conn_open := False,
                wire := wire k @ [CloseMessage]\<rparr>)"
    unfolding sd by (intro allI impI WritePump_drained) simp_all
  have nr: "\<not> registered ?h' c" using after by blast
  have "unregister h c = Inr ?h' \<and> \<not> registered ?h' c \<and>
     (registered h c \<longrightarrow>
        \<not> closed (Send h c) \<and> Send ?h' c = (Send h c)\<lparr>closed := True\<rparr> \<and>
        unregister ?h' c = Inr ?h' \<and>
        (\<forall>cs. clients h (UserID c) = Some cs \<longrightarrow>
           clients ?h' (UserID c) = (if set cs = {c} then None else Some (removeAll c cs))) \<and>
        (\<forall>turns k. length (buf (Send ?h' c)) < send_turns turns \<longrightarrow>
           fst (WritePump turns (Send ?h' c, k)) = Returned \<and>
           \<not> conn_open (snd (snd (WritePump turns (Send ?h' c, k))))) \<and>
        (\<forall>t a b rest k. buf (Send h c) = [] \<longrightarrow>
           WritePump (FromSend t a b # rest) (Send ?h' c, k) =
             (Returned, Send ?h' c,
              k\<lparr>writeDeadline := t + 10 * Second, conn_open := False,
                wire := wire k @ [CloseMessage]\<rparr>))) \<and>
     (\<not> registered h c \<longrightarrow> ?h' = h)"
    using True eq nr opn sd again cl pump drained by blast
  then show ?thesis by (rule exI [of _ ?h'])
qed

text \<open>
  The last session of user 2 is unregistered: the key of user 2 is removed, the channel
  is closed, and the write pump writes the close frame and returns on its next receive.
\<close>

theorem unregister_removes_session_witness:
  "hub_inv ex_hub \<and> registered ex_hub ex_C \<and> clients ex_hub (UserID ex_C) = Some [ex_C] \<and>
   (\<exists>h'. unregister ex_hub ex_C = Inr h' \<and> \<not> registered h' ex_C \<and>
      Send h' ex_C = \<lparr>buf = [], cap = 2, closed = True\<rparr> \<and>
      clients h' 2 = None \<and>
      WritePump [FromSend 0 True True] (Send h' ex_C, ex_conn) =
        (Returned, Send h' ex_C,
         ex_conn\<lparr>writeDeadline := 0 + 10 * Second, conn_open := False,
                 wire := wire ex_conn @ [CloseMessage]\<rparr>))"
proof -
  have uid: "UserID ex_C = 2" by (simp add: ex_C_def)
  have cl: "clients ex_hub (UserID ex_C) = Some [ex_C]" using ex_hub_clients(2) uid by simp
  have reg: "registered ex_hub ex_C" unfolding registered_def using cl by force
  have empty: "buf (Send ex_hub ex_C) = []"
    using ex_distinct by (simp add: ex_hub_Send ex_chans_def)
  obtain h' where r: "unregister ex_hub ex_C = Inr h'" "\<not> registered h' ex_C"
      "Send h' ex_C = (Send ex_hub ex_C)\<lparr>closed := True\<rparr>"
      "\<forall>cs. clients ex_hub (UserID ex_C) = Some cs \<longrightarrow>
           clients h' (UserID ex_C) = (if set cs = {ex_C} then None else Some (removeAll ex_C cs))"
      "\<forall>t a b rest k. buf (Send ex_hub ex_C) = [] \<longrightarrow>
           WritePump (FromSend t a b # rest) (Send h' ex_C, k) =
             (Returned, Send h' ex_C,
              k\<lparr>writeDeadline := t + 10 * Second, conn_open := False,
                wire := wire k @ [CloseMessage]\<rparr>)"
    using unregister_removes_session [OF ex_hub_inv, of ex_C] reg by blast
  have a: "Send h' ex_C = \<lparr>buf = [], cap = 2, closed = True\<rparr>"
    using r(3) ex_distinct by (simp add: ex_hub_Send ex_chans_def)
  have b: "clients h' 2 = None" using r(4) cl uid by simp
  have c: "WritePump [FromSend 0 True True] (Send h' ex_C, ex_conn) =
        (Returned, Send h' ex_C,
         ex_conn\<lparr>writeDeadline := 0 + 10 * Second, conn_open := False,
                 wire := wire ex_conn @ [CloseMessage]\<rparr>)"
    using r(5) empty by blast
  show ?thesis using ex_hub_inv reg cl r(1) r(2) a b c by blast
qed

lemma ex_dropped_inv: "hub_inv ex_dropped"
  by (simp add: hub_inv_def ex_dropped_def)

text \<open>
  C5 as stated fails. User 1 has one session, whose queue is full. A delivery for user 1
  drops the session: its channel is closed and the user's set is left empty under the
  user's key. The state satisfies the invariant. The unregister of that session, the
  user's last, then changes nothing: the user's key is still in the registry.
\<close>

theorem dropped_session_key_stays:
  "hub_inv (register (NewHub ex_chans) ex_A) \<and>
   clients (register (NewHub ex_chans) ex_A) 1 = Some [ex_A] \<and>
   broadcastToLocal (register (NewHub ex_chans) ex_A) 1 ''m'' = Inr ex_dropped \<and>
   hub_inv ex_dropped \<and>
   unregister ex_dropped ex_A = Inr ex_dropped \<and>
   clients ex_dropped (UserID ex_A) = Some [] \<and>
   clients ex_dropped (UserID ex_A) \<noteq> None \<and>
   \<not> IsUserOnline ex_dropped (UserID ex_A)"
proof -
  have i0: "hub_inv (register (NewHub ex_chans) ex_A)"
    by (intro hub_inv_register hub_inv_NewHub) (simp add: NewHub_def ex_chans_def)
  have c0: "clients (register (NewHub ex_chans) ex_A) 1 = Some [ex_A]"
    by (simp add: clients_register NewHub_def set_key_def ex_A_def)
  have s0: "Send (register (NewHub ex_chans) ex_A) = ex_chans"
    by (simp add: Send_register NewHub_def)
  have b: "broadcastToLocal (register (NewHub ex_chans) ex_A) 1 ''m'' = Inr ex_dropped"
    unfolding broadcastToLocal_eq [OF i0 c0]
    by (simp add: ex_dropped_def s0 register_def NewHub_def set_key_def ex_A_def ex_chans_def
        after_attempt_def has_room_def fun_eq_iff)
  have u: "unregister ex_dropped ex_A = Inr ex_dropped"
    by (simp add: unregister_def ex_dropped_def ex_A_def)
  have k: "clients ex_dropped (UserID ex_A) = Some []"
    by (simp add: ex_dropped_def ex_A_def)
  have o: "\<not> IsUserOnline ex_dropped (UserID ex_A)"
    by (simp add: IsUserOnline_def k)
  show ?thesis using i0 c0 b ex_dropped_inv u k o by simp
qed

text \<open>
  C4. For a stream entry whose \<open>target_user_id\<close> and \<open>payload\<close> are strings and
  whose target parses to user \<open>u\<close>, the loop body records the entry once, moves the
  cursor to it and calls \<open>broadcastToLocal\<close> once: every session registered for
  \<open>u\<close> gets one attempt (the payload appended once to its queue when there is room,
  the channel closed when there is none), and every other channel, in particular that of
  every session of another user, is left as it was.
\<close>

theorem entry_delivered_once:
  assumes inv: "hub_inv h"
    and tgt: "Values msg ''target_user_id'' = Some (GoString s)"
    and pl: "Values msg ''payload'' = Some (GoString p)"
    and parse: "Parse s = Some u"
  shows "\<exists>h'. handle_msg Parse h msg = Inr h' \<and>
     (\<forall>st. hub st = h \<longrightarrow>
        range_messages Parse [msg] st =
          st\<lparr>lastID := EntryID (ID msg), processed := processed st @ [ID msg], hub := h'\<rparr>) \<and>
     (\<forall>d. Send h' d =
        (if (\<exists>cs. clients h u = Some cs \<and> d \<in> set cs)
         then (if has_room (Send h d) then (Send h d)\<lparr>buf := buf (Send h d) @ [p]\<rparr>
               else (Send h d)\<lparr>closed := True\<rparr>)
         else Send h d)) \<and>
     (\<forall>d. UserID d \<noteq> u \<longrightarrow> Send h' d = Send h d)"
proof -
  have hm: "handle_msg Parse h msg = broadcastToLocal h u p"
    using tgt pl parse by (simp add: handle_msg_def as_string_def)
  show ?thesis
  proof (cases "clients h u")
    case None
    then have eq: "handle_msg Parse h msg = Inr h" using hm by (simp add: broadcastToLocal_absent)
    have "\<forall>st. hub st = h \<longrightarrow>
        range_messages Parse [msg] st =
          st\<lparr>lastID := EntryID (ID msg), processed := processed st @ [ID msg], hub := h\<rparr>"
      using eq by (simp add: Let_def)
    then show ?thesis using eq None by simp
  next
    case (Some cs)
    let ?h' = "h\<lparr>clients := (clients h)(u \<mapsto> filter (\<lambda>d. has_room (Send h d)) cs),
            Send := (\<lambda>d. if d \<in> set cs then after_attempt p (Send h d) else Send h d)\<rparr>"
    have eq: "handle_msg Parse h msg = Inr ?h'"
      using hm broadcastToLocal_eq [OF inv Some, of p] by simp
    have rm: "\<forall>st. hub st = h \<longrightarrow>
        range_messages Parse [msg] st =
          st\<lparr>lastID := EntryID (ID msg), processed := processed st @ [ID msg], hub := ?h'\<rparr>"
      using eq by (simp add: Let_def)
    have own: "\<forall>d \<in> set cs. UserID d = u" using hub_invD [OF inv Some] by simp
    have sd: "\<forall>d. Send ?h' d =
        (if (\<exists>cs. clients h u = Some cs \<and> d \<in> set cs)
         then (if has_room (Send h d) then (Send h d)\<lparr>buf := buf (Send h d) @ [p]\<rparr>
               else (Send h d)\<lparr>closed := True\<rparr>)
         else Send h d)"
      using Some by (simp add: after_attempt_def)
    have oth: "\<forall>d. UserID d \<noteq> u \<longrightarrow> Send ?h' d = Send h d"
      using own by auto
    show ?thesis using eq rm sd oth by (intro exI [of _ ?h']) blast
  qed
qed

section \<open>The tailing loop\<close>

lemma wf_stream_XAdd:
  assumes wf: "wf_stream s"
  shows "wf_stream (redis_XAdd delta evict args s)"
proof -
  let ?i = "last_generated s + 1 + delta"
  let ?es = "entries s @ [\<lparr>ID = ?i, Values = AddValues args\<rparr>]"
  have le: "\<forall>m \<in> set (entries s). ID m \<le> last_generated s"
    using wf by (simp add: wf_stream_def list_all_iff)
  have srt: "sorted_wrt (<) (map ID ?es)"
    using wf le by (auto simp: wf_stream_def sorted_wrt_append)
  have bnd: "\<forall>m \<in> set ?es. ID m \<le> ?i" using le by auto
  have "sorted_wrt (<) (map ID (drop n ?es))" for n
    using sorted_wrt_drop [OF srt, of n] unfolding drop_map .
  moreover have "\<forall>m \<in> set (drop n ?es). ID m \<le> ?i" for n
    using bnd in_set_dropD by fast
  ultimately show ?thesis
    by (simp add: wf_stream_def redis_XAdd_def Let_def list_all_iff)
qed

lemma last_generated_XAdd: "last_generated s < last_generated (redis_XAdd delta evict args s)"
  by (simp add: redis_XAdd_def Let_def)

lemma appends_keeps:
  "wf_stream s \<Longrightarrow> wf_stream (appends xs s) \<and> last_generated s \<le> last_generated (appends xs s)"
proof (induction xs arbitrary: s)
  case Nil
  then show ?case by (simp add: appends_def)
next
  case (Cons x xs)
  obtain delta evict args where x: "x = (delta, evict, args)" by (cases x) auto
  have wf1: "wf_stream (redis_XAdd delta evict args s)" by (rule wf_stream_XAdd [OF Cons.prems])
  have step: "appends (x # xs) s = appends xs (redis_XAdd delta evict args s)"
    by (simp add: appends_def x)
  show ?case
    using Cons.IH [OF wf1] last_generated_XAdd [of s delta evict args] unfolding step by simp
qed

lemma range_messages_keeps:
  assumes "sorted_wrt (<) (processed st)"
    and "\<forall>i \<in> set (processed st). \<forall>m \<in> set msgs. i < ID m"
    and "sorted_wrt (<) (map ID msgs)"
    and "cursor_ok st"
  shows "sorted_wrt (<) (processed (range_messages Parse msgs st)) \<and>
         set (processed (range_messages Parse msgs st)) \<subseteq> set (processed st) \<union> ID ` set msgs \<and>
         cursor_ok (range_messages Parse msgs st) \<and>
         log (range_messages Parse msgs st) = log st"
  using assms
proof (induction msgs arbitrary: st)
  case Nil
  then show ?case by simp
next
  case (Cons msg rest)
  let ?st1 = "st\<lparr>lastID := EntryID (ID msg), processed := processed st @ [ID msg]\<rparr>"
  have s1: "sorted_wrt (<) (processed ?st1)"
    using Cons.prems(1,2) by (simp add: sorted_wrt_append)
  have c1: "cursor_ok ?st1" by (simp add: cursor_ok_def)
  have b1: "\<forall>i \<in> set (processed ?st1). \<forall>m \<in> set rest. i < ID m"
    using Cons.prems(2,3) by auto
  have r1: "sorted_wrt (<) (map ID rest)" using Cons.prems(3) by simp
  show ?case
  proof (cases "handle_msg Parse (hub ?st1) msg")
    case (Inl p)
    then have "range_messages Parse (msg # rest) st = ?st1\<lparr>crashed := Some p\<rparr>"
      by (simp add: Let_def)
    then show ?thesis using s1 c1 by (auto simp: cursor_ok_def)
  next
    case (Inr h')
    let ?st2 = "?st1\<lparr>hub := h'\<rparr>"
    have eq: "range_messages Parse (msg # rest) st = range_messages Parse rest ?st2"
      using Inr by (simp add: Let_def)
    have s2: "sorted_wrt (<) (processed ?st2)" using s1 by simp
    have b2: "\<forall>i \<in> set (processed ?st2). \<forall>m \<in> set rest. i < ID m" using b1 by simp
    have c2: "cursor_ok ?st2" using c1 by (simp add: cursor_ok_def)
    show ?thesis
      unfolding eq using Cons.IH [OF s2 b2 r1 c2] by auto
  qed
qed

lemma sorted_le_last:
  "sorted_wrt (<) (xs :: nat list) \<Longrightarrow> xs \<noteq> [] \<Longrightarrow> \<forall>i \<in> set xs. i \<le> last xs"
  by (induction xs rule: rev_induct) (auto simp: sorted_wrt_append less_imp_le)

lemma listen_turn_keeps:
  assumes inv: "listen_inv g0 st"
  shows "listen_inv g0 (listen_turn Parse t st)"
proof (cases "crashed st \<noteq> None")
  case True
  then show ?thesis using inv by (simp add: listen_turn_def)
next
  case False
  let ?c = "appends (before_call t) (log st)"
  let ?r = "appends (while_blocked t) ?c"
  let ?st' = "st\<lparr>log := ?r\<rparr>"
  have wfc: "wf_stream ?c" "last_generated (log st) \<le> last_generated ?c"
    using appends_keeps inv unfolding listen_inv_def by blast+
  have wfr: "wf_stream ?r" "last_generated ?c \<le> last_generated ?r"
    using appends_keeps wfc(1) by blast+
  have inv': "listen_inv g0 ?st'"
    using inv wfc wfr by (simp add: listen_inv_def cursor_ok_def)
  show ?thesis
  proof (cases "read_fails t")
    case True
    then show ?thesis using inv' False by (simp add: listen_turn_def Let_def)
  next
    case nofail: False
    let ?from = "case lastID st of Dollar \<Rightarrow> last_generated ?c | EntryID i \<Rightarrow> i"
    let ?found = "filter (\<lambda>m. ?from < ID m) (entries ?r)"
    show ?thesis
    proof (cases "?found = []")
      case True
      then have "listen_turn Parse t st = ?st'"
        using False nofail by (simp add: listen_turn_def redis_XRead_def Let_def)
      then show ?thesis using inv' by simp
    next
      case nonempty: False
      let ?msgs = "take 10 ?found"
      have eq: "listen_turn Parse t st = range_messages Parse ?msgs ?st'"
        using False nofail nonempty by (simp add: listen_turn_def redis_XRead_def Let_def)
      have srt_found: "sorted_wrt (<) (map ID ?found)"
        using wfr(1) by (simp add: wf_stream_def sorted_wrt_map sorted_wrt_filter)
      have srt: "sorted_wrt (<) (map ID ?msgs)"
        using srt_found by (simp add: take_map [symmetric] sorted_wrt_take del: take_map)
      have above: "\<forall>m \<in> set ?msgs. ?from < ID m"
        using in_set_takeD by fastforce
      have g0from: "g0 \<le> ?from"
      proof (cases "lastID st")
        case Dollar
        then show ?thesis using inv wfc(2) by (simp add: listen_inv_def)
      next
        case (EntryID c)
        then have "processed st \<noteq> []" "c = last (processed st)"
          using inv by (auto simp: listen_inv_def cursor_ok_def split: if_splits)
        then have "c \<in> set (processed st)" by simp
        then show ?thesis using inv EntryID by (auto simp: listen_inv_def)
      qed
      have below: "\<forall>i \<in> set (processed st). i \<le> ?from"
      proof (cases "lastID st")
        case Dollar
        then have "processed st = []"
          using inv by (auto simp: listen_inv_def cursor_ok_def split: if_splits)
        then show ?thesis by simp
      next
        case (EntryID c)
        then have ne: "processed st \<noteq> []" and c: "c = last (processed st)"
          using inv by (auto simp: listen_inv_def cursor_ok_def split: if_splits)
        have s: "sorted_wrt (<) (processed st)" using inv by (simp add: listen_inv_def)
        have "\<forall>i \<in> set (processed st). i \<le> last (processed st)"
          by (rule sorted_le_last [OF s ne])
        then show ?thesis using EntryID c by simp
      qed
      have b: "\<forall>i \<in> set (processed ?st'). \<forall>m \<in> set ?msgs. i < ID m"
        using below above by fastforce
      have s: "sorted_wrt (<) (processed ?st')" using inv by (simp add: listen_inv_def)
      have c: "cursor_ok ?st'" using inv by (simp add: listen_inv_def cursor_ok_def)
      have k: "sorted_wrt (<) (processed (range_messages Parse ?msgs ?st')) \<and>
         set (processed (range_messages Parse ?msgs ?st')) \<subseteq> set (processed ?st') \<union> ID ` set ?msgs \<and>
         cursor_ok (range_messages Parse ?msgs ?st') \<and>
         log (range_messages Parse ?msgs ?st') = log ?st'"
        by (rule range_messages_keeps [OF s b srt c])
      have gt: "\<forall>i \<in> set (processed (range_messages Parse ?msgs ?st')). g0 < i"
      proof
        fix i assume "i \<in> set (processed (range_messages Parse ?msgs ?st'))"
        then have "i \<in> set (processed st) \<or> i \<in> ID ` set ?msgs" using k by auto
        then show "g0 < i"
        proof
          assume "i \<in> set (processed st)"
          then show ?thesis using inv by (simp add: listen_inv_def)
        next
          assume "i \<in> ID ` set ?msgs"
          then show ?thesis using above g0from by fastforce
        qed
      qed
      show ?thesis
        unfolding eq listen_inv_def using k gt inv' by (simp add: listen_inv_def)
    qed
  qed
qed

lemma fold_listen_turn_keeps:
  "listen_inv g0 st \<Longrightarrow> listen_inv g0 (fold (listen_turn Parse) turns st)"
  by (induction turns arbitrary: st) (simp_all add: listen_turn_keeps)

text \<open>
  C2. The loop starts with the cursor \<open>"$"\<close>. Whatever is appended, evicted or fails
  during any number of turns, the IDs of the entries the loop body has run on are
  pairwise distinct, none of them is the ID of an entry that was in the stream when the
  loop started, and the cursor is \<open>"$"\<close> as long as nothing was processed and the ID
  of the last processed entry afterwards.
\<close>

theorem tailing_from_end_no_repeat:
  assumes wf: "wf_stream s0"
  shows "lastID (listenRedisStream Parse [] s0 h) = Dollar \<and>
     distinct (processed (listenRedisStream Parse turns s0 h)) \<and>
     (\<forall>m \<in> set (entries s0). ID m \<notin> set (processed (listenRedisStream Parse turns s0 h))) \<and>
     lastID (listenRedisStream Parse turns s0 h) =
       (if processed (listenRedisStream Parse turns s0 h) = [] then Dollar
        else EntryID (last (processed (listenRedisStream Parse turns s0 h))))"
proof -
  let ?init = "\<lparr>log = s0, lastID = Dollar, hub = h, processed = [], crashed = None\<rparr>"
  let ?st = "listenRedisStream Parse turns s0 h"
  have "listen_inv (last_generated s0) ?init"
    using wf by (simp add: listen_inv_def cursor_ok_def)
  then have inv: "listen_inv (last_generated s0) ?st"
    unfolding listenRedisStream_def by (rule fold_listen_turn_keeps)
  have "sorted_wrt (<) (processed ?st)" using inv by (simp add: listen_inv_def)
  then have d: "distinct (processed ?st)" by (simp add: strict_sorted_iff)
  have old: "\<forall>m \<in> set (entries s0). ID m \<le> last_generated s0"
    using wf by (simp add: wf_stream_def list_all_iff)
  have new: "\<forall>i \<in> set (processed ?st). last_generated s0 < i"
    using inv by (simp add: listen_inv_def)
  have no: "\<forall>m \<in> set (entries s0). ID m \<notin> set (processed ?st)"
    using old new by fastforce
  have cur: "cursor_ok ?st" using inv by (simp add: listen_inv_def)
  show ?thesis using d no cur by (simp add: cursor_ok_def listenRedisStream_def)
qed

section \<open>Examples of the tailing loop\<close>

lemma ex_run: "processed (listenRedisStream ex_Parse ex_turns ex_stream (NewHub ex_chans)) = [7, 10]"
  by (simp add: listenRedisStream_def ex_turns_def listen_turn_def appends_def redis_XAdd_def
      redis_XRead_def ex_stream_def ex_args_def Let_def handle_msg_def as_string_def ex_Parse_def
      broadcastToLocal_def NewHub_def)

text \<open>
  A stream that holds entry 5 at the start; entry 6 is appended before the first read and
  entry 7 during it, then a read fails, then entry 10 arrives: the loop processes 7 and
  10, each once.
\<close>

theorem tailing_from_end_no_repeat_witness:
  "wf_stream ex_stream \<and>
   processed (listenRedisStream ex_Parse ex_turns ex_stream (NewHub ex_chans)) = [7, 10] \<and>
   distinct (processed (listenRedisStream ex_Parse ex_turns ex_stream (NewHub ex_chans))) \<and>
   5 \<notin> set (processed (listenRedisStream ex_Parse ex_turns ex_stream (NewHub ex_chans))) \<and>
   lastID (listenRedisStream ex_Parse ex_turns ex_stream (NewHub ex_chans)) = EntryID 10"
proof -
  have wf: "wf_stream ex_stream" by (simp add: wf_stream_def ex_stream_def)
  have old: "\<lparr>ID = 5, Values = AddValues ex_args\<rparr> \<in> set (entries ex_stream)"
    by (simp add: ex_stream_def)
  show ?thesis
    using wf old ex_run
      tailing_from_end_no_repeat [OF wf, of ex_Parse "NewHub ex_chans" ex_turns]
    by auto
qed

text \<open>
  An entry for user 1 on the small hub: the full session is closed, the other session of
  user 1 gets the payload once, the session of user 2 is untouched.
\<close>

theorem entry_delivered_once_witness:
  "hub_inv ex_hub \<and> Values ex_msg ''target_user_id'' = Some (GoString ''u1'') \<and>
   Values ex_msg ''payload'' = Some (GoString ''hello'') \<and> ex_Parse ''u1'' = Some 1 \<and>
   (\<exists>h'. handle_msg ex_Parse ex_hub ex_msg = Inr h' \<and>
      Send h' ex_A = \<lparr>buf = [''old''], cap = 1, closed = True\<rparr> \<and>
      Send h' ex_B = \<lparr>buf = [''hello''], cap = 2, closed = False\<rparr> \<and>
      Send h' ex_C = \<lparr>buf = [], cap = 2, closed = False\<rparr>)"
proof -
  have t: "Values ex_msg ''target_user_id'' = Some (GoString ''u1'')"
    and p: "Values ex_msg ''payload'' = Some (GoString ''hello'')"
    by (simp_all add: ex_msg_def)
  have q: "ex_Parse ''u1'' = Some 1" by (simp add: ex_Parse_def)
  obtain h' where r: "handle_msg ex_Parse ex_hub ex_msg = Inr h'"
    "\<forall>d. Send h' d =
        (if (\<exists>cs. clients ex_hub 1 = Some cs \<and> d \<in> set cs)
         then (if has_room (Send ex_hub d)
               then (Send ex_hub d)\<lparr>buf := buf (Send ex_hub d) @ [''hello'']\<rparr>
               else (Send ex_hub d)\<lparr>closed := True\<rparr>)
         else Send ex_hub d)"
    using entry_delivered_once [of ex_hub ex_msg "''u1''" "''hello''" ex_Parse 1, OF ex_hub_inv t p q]
    by blast
  have a: "Send h' ex_A = \<lparr>buf = [''old''], cap = 1, closed = True\<rparr>"
    using r(2) by (simp add: ex_hub_clients ex_hub_Send ex_chans_def has_room_def)
  have b: "Send h' ex_B = \<lparr>buf = [''hello''], cap = 2, closed = False\<rparr>"
    using r(2) ex_distinct by (simp add: ex_hub_clients ex_hub_Send ex_chans_def has_room_def)
  have c: "Send h' ex_C = \<lparr>buf = [], cap = 2, closed = False\<rparr>"
    using r(2) ex_distinct by (simp add: ex_hub_clients ex_hub_Send ex_chans_def has_room_def)
  show ?thesis using ex_hub_inv t p q r(1) a b c by blast
qed

section \<open>Publishing\<close>

lemma drop_snoc_last:
  assumes "n \<le> length xs"
  shows "drop n (xs @ [x]) \<noteq> [] \<and> last (drop n (xs @ [x])) = x \<and>
         length (drop n (xs @ [x])) = length xs + 1 - n"
  using assms by simp

lemma XAdd_entries:
  "entries (redis_XAdd delta evict args s) =
     drop (if MaxLen args = 0 then 0
           else if Approx args then min evict (length (entries s) + 1 - MaxLen args)
           else length (entries s) + 1 - MaxLen args)
       (entries s @ [\<lparr>ID = last_generated s + 1 + delta, Values = AddValues args\<rparr>])"
  by (simp add: redis_XAdd_def Let_def)

lemma XAdd_capped:
  assumes a: "Approx args" and m: "0 < MaxLen args"
  shows "entries (redis_XAdd delta evict args s) \<noteq> [] \<and>
     last (entries (redis_XAdd delta evict args s)) =
       \<lparr>ID = last_generated s + 1 + delta, Values = AddValues args\<rparr> \<and>
     length (entries (redis_XAdd delta evict args s)) \<le> length (entries s) + 1 \<and>
     min (length (entries s) + 1) (MaxLen args) \<le> length (entries (redis_XAdd delta evict args s))"
proof -
  define n where "n = min evict (length (entries s) + 1 - MaxLen args)"
  define new where "new = \<lparr>ID = last_generated s + 1 + delta, Values = AddValues args\<rparr>"
  have e: "entries (redis_XAdd delta evict args s) = drop n (entries s @ [new])"
    unfolding XAdd_entries n_def new_def using a m by simp
  have le: "n \<le> length (entries s)" unfolding n_def using m by arith
  have over: "n \<le> length (entries s) + 1 - MaxLen args" unfolding n_def by simp
  have d: "drop n (entries s @ [new]) \<noteq> [] \<and> last (drop n (entries s @ [new])) = new \<and>
         length (drop n (entries s @ [new])) = length (entries s) + 1 - n"
    by (rule drop_snoc_last [OF le])
  have l1: "length (entries s) + 1 - n \<le> length (entries s) + 1" by simp
  have l2: "min (length (entries s) + 1) (MaxLen args) \<le> length (entries s) + 1 - n"
    using over le by arith
  show ?thesis unfolding e using d l1 l2 unfolding new_def by simp
qed

lemma SendToUser_Added:
  "SendToUser String (Added delta evict) r userID message =
     r\<lparr>streams := (streams r)(streamKey :=
           redis_XAdd delta evict
             \<lparr>Stream = streamKey,
              AddValues = [''target_user_id'' \<mapsto> GoString (String userID),
                           ''payload'' \<mapsto> GoString message],
              MaxLen = 100000, Approx = True\<rparr>
             (streams r streamKey))\<rparr>"
  by (simp add: SendToUser_def db_XAdd_def)

lemma SendToUser_Failed:
  "SendToUser String (Failed e) r userID message =
     r\<lparr>zerolog := zerolog r @ [''Failed to publish message to Redis Stream'']\<rparr>"
  by (simp add: SendToUser_def db_XAdd_def)

text \<open>
  C9. \<open>SendToUser\<close> has no error result. When the append reaches Redis, the stream
  \<open>locolive:stream:routing\<close> is the result of one \<open>XADD\<close> with the fields
  \<open>target_user_id\<close> (the string of the target's UUID) and \<open>payload\<close>, with
  \<open>MaxLen = 100000\<close> and \<open>Approx\<close>: the new entry is the last one, the
  stream grew by at most one entry and is not cut below the cap, and nothing else
  changes. When the append fails, the only effect is one line in the error log.
\<close>

theorem SendToUser_fire_and_forget:
  "streams (SendToUser String (Added delta evict) r userID message) =
     (streams r)(''locolive:stream:routing'' :=
        redis_XAdd delta evict
          \<lparr>Stream = ''locolive:stream:routing'',
           AddValues = [''target_user_id'' \<mapsto> GoString (String userID),
                        ''payload'' \<mapsto> GoString message],
           MaxLen = 100000, Approx = True\<rparr>
          (streams r ''locolive:stream:routing'')) \<and>
   zerolog (SendToUser String (Added delta evict) r userID message) = zerolog r \<and>
   entries (streams (SendToUser String (Added delta evict) r userID message)
              ''locolive:stream:routing'') \<noteq> [] \<and>
   last (entries (streams (SendToUser String (Added delta evict) r userID message)
              ''locolive:stream:routing'')) =
     \<lparr>ID = last_generated (streams r ''locolive:stream:routing'') + 1 + delta,
      Values = [''target_user_id'' \<mapsto> GoString (String userID),
                ''payload'' \<mapsto> GoString message]\<rparr> \<and>
   length (entries (streams (SendToUser String (Added delta evict) r userID message)
              ''locolive:stream:routing''))
     \<le> length (entries (streams r ''locolive:stream:routing'')) + 1 \<and>
   min (length (entries (streams r ''locolive:stream:routing'')) + 1) 100000
     \<le> length (entries (streams (SendToUser String (Added delta evict) r userID message)
              ''locolive:stream:routing'')) \<and>
   SendToUser String (Failed e) r userID message =
     r\<lparr>zerolog := zerolog r @ [''Failed to publish message to Redis Stream'']\<rparr>"
proof -
  define args where "args = \<lparr>Stream = streamKey,
              AddValues = [''target_user_id'' \<mapsto> GoString (String userID),
                           ''payload'' \<mapsto> GoString message],
              MaxLen = 100000, Approx = True\<rparr>"
  define s where "s = streams r streamKey"
  define r' where "r' = SendToUser String (Added delta evict) r userID message"
  have r': "r' = r\<lparr>streams := (streams r)(streamKey := redis_XAdd delta evict args s)\<rparr>"
    unfolding r'_def args_def s_def by (rule SendToUser_Added)
  have a: "Approx args" and m: "0 < MaxLen args" and m': "MaxLen args = 100000"
    and v: "AddValues args = [''target_user_id'' \<mapsto> GoString (String userID),
                           ''payload'' \<mapsto> GoString message]"
    by (simp_all add: args_def)
  have c: "entries (redis_XAdd delta evict args s) \<noteq> [] \<and>
     last (entries (redis_XAdd delta evict args s)) =
       \<lparr>ID = last_generated s + 1 + delta, Values = AddValues args\<rparr> \<and>
     length (entries (redis_XAdd delta evict args s)) \<le> length (entries s) + 1 \<and>
     min (length (entries s) + 1) (MaxLen args) \<le> length (entries (redis_XAdd delta evict args s))"
    by (rule XAdd_capped [OF a m])
  have s1: "streams r' = (streams r)(streamKey := redis_XAdd delta evict args s)"
    unfolding r' by simp
  have s2: "streams r' streamKey = redis_XAdd delta evict args s" unfolding s1 by simp
  have z: "zerolog r' = zerolog r" unfolding r' by simp
  have all: "streams r' = (streams r)(streamKey := redis_XAdd delta evict args s) \<and>
     zerolog r' = zerolog r \<and>
     entries (streams r' streamKey) \<noteq> [] \<and>
     last (entries (streams r' streamKey)) =
       \<lparr>ID = last_generated s + 1 + delta,
        Values = [''target_user_id'' \<mapsto> GoString (String userID),
                  ''payload'' \<mapsto> GoString message]\<rparr> \<and>
     length (entries (streams r' streamKey)) \<le> length (entries s) + 1 \<and>
     min (length (entries s) + 1) 100000 \<le> length (entries (streams r' streamKey))"
    unfolding s2 using s1 z c m' v by simp
  have fl: "SendToUser String (Failed e) r userID message =
     r\<lparr>zerolog := zerolog r @ [''Failed to publish message to Redis Stream'']\<rparr>"
    by (rule SendToUser_Failed)
  show ?thesis
    using all fl unfolding r'_def s_def args_def streamKey_def by blast
qed

section \<open>The read pump\<close>

lemma handle_frame_fields:
  "cn (handle_frame U M S c message reply w) = cn w"
  "Unregister (handle_frame U M S c message reply w) = Unregister w"
  "store_writes (handle_frame U M S c message reply w) = store_writes w"
  by (simp_all add: handle_frame_def Let_def split: option.splits prod.splits)

lemma handle_frame_typing:
  "U message = Some (''typing'', receiver) \<Longrightarrow>
   handle_frame U M S c message reply w =
     w\<lparr>rt := SendToUser S reply (rt w) receiver (M (typingMsg c))\<rparr>"
  by (simp add: handle_frame_def typingMsg_def)

lemma handle_frame_dropped:
  "U message = None \<or> (\<exists>ty rcv. U message = Some (ty, rcv) \<and> ty \<noteq> ''typing'') \<Longrightarrow>
   handle_frame U M S c message reply w = w"
  by (auto simp: handle_frame_def)

lemma ReadPump_loop_store:
  "store_writes (ReadPump_loop U M S c arrivals w) = store_writes w"
proof (induction U M S c arrivals w rule: ReadPump_loop.induct)
  case (1 U M S c w)
  then show ?case by (simp add: ReadPump_exit_def)
next
  case (2 U M S c rest w)
  then show ?case by (simp add: ReadPump_exit_def)
next
  case (3 U M S c t f reply rest w)
  show ?case
  proof (cases "readDeadline (cn w) < t")
    case True
    then show ?thesis by (simp add: ReadPump_exit_def)
  next
    case False
    then show ?thesis
      using 3 by (cases f) (simp_all add: ReadPump_exit_def handle_frame_fields)
  qed
qed

lemma ReadPump_loop_deadline:
  "\<forall>a \<in> set arrivals. \<not> is_pong a \<Longrightarrow>
   readDeadline (cn (ReadPump_loop U M S c arrivals w)) = readDeadline (cn w)"
proof (induction U M S c arrivals w rule: ReadPump_loop.induct)
  case (1 U M S c w)
  then show ?case by (simp add: ReadPump_exit_def)
next
  case (2 U M S c rest w)
  then show ?case by (simp add: ReadPump_exit_def)
next
  case (3 U M S c t f reply rest w)
  show ?case
  proof (cases "readDeadline (cn w) < t")
    case True
    then show ?thesis by (simp add: ReadPump_exit_def)
  next
    case False
    then show ?thesis
      using 3 by (cases f) (simp_all add: ReadPump_exit_def handle_frame_fields)
  qed
qed

lemma ReadPump_loop_oversize:
  "readLimit (cn w) < length m \<Longrightarrow>
   ReadPump_loop U M S c (pre @ Arrives t (TextMessage m) reply # rest) w =
   ReadPump_loop U M S c (pre @ [NetworkError]) w"
proof (induction U M S c pre w rule: ReadPump_loop.induct)
  case (1 U M S c w)
  then show ?case by simp
next
  case (2 U M S c rest' w)
  then show ?case by simp
next
  case (3 U M S c t' f reply' rest' w)
  show ?case
  proof (cases "readDeadline (cn w) < t'")
    case True
    then show ?thesis by simp
  next
    case False
    then show ?thesis
      using 3 by (cases f) (simp_all add: handle_frame_fields)
  qed
qed

text \<open>
  C6. A frame that \<open>json.Unmarshal\<close> decodes with type \<open>typing\<close> and receiver
  \<open>r\<close> makes the session call \<open>SendToUser\<close> for \<open>r\<close> with the JSON of a
  message of type \<open>typing\<close> whose payload holds the sender's \<open>user_id\<close> and
  \<open>username\<close>; when the append reaches Redis the stream's new last entry has
  \<open>target_user_id\<close> the string of \<open>r\<close> and that JSON as \<open>payload\<close>. A frame
  that does not decode, or decodes with another type, leaves the state as it was. This
  holds for text and for binary frames alike (the loop ignores the message type): in all
  cases the loop goes on with the frames that follow, and \<open>ReadPump\<close> never
  changes the writes of the relational store.
\<close>

theorem typing_frames_relayed:
  "(U message = Some (''typing'', receiver) \<longrightarrow>
      handle_frame U M S c message reply w =
        w\<lparr>rt := SendToUser S reply (rt w) receiver
                   (M \<lparr>Type = ''typing'',
                       Payload = [(''user_id'', PUUID (UserID c)),
                                  (''username'', PString (Username c))],
                       SenderID = 0, CreatedAt = 0\<rparr>)\<rparr>) \<and>
   (U message = Some (''typing'', receiver) \<and> reply = Added delta evict \<longrightarrow>
      Values (last (entries (streams (rt (handle_frame U M S c message reply w))
                               ''locolive:stream:routing''))) =
        [''target_user_id'' \<mapsto> GoString (S receiver),
         ''payload'' \<mapsto> GoString (M \<lparr>Type = ''typing'',
                       Payload = [(''user_id'', PUUID (UserID c)),
                                  (''username'', PString (Username c))],
                       SenderID = 0, CreatedAt = 0\<rparr>)]) \<and>
   (U message = None \<longrightarrow> handle_frame U M S c message reply w = w) \<and>
   (\<forall>ty rcv. U message = Some (ty, rcv) \<and> ty \<noteq> ''typing'' \<longrightarrow>
      handle_frame U M S c message reply w = w) \<and>
   (\<not> readDeadline (cn w) < t \<and> length message \<le> readLimit (cn w) \<and>
    (f = TextMessage message \<or> f = BinaryMessage message) \<longrightarrow>
      ReadPump_loop U M S c (Arrives t f reply # rest) w =
        ReadPump_loop U M S c rest (handle_frame U M S c message reply w)) \<and>
   store_writes (ReadPump U M S c now arrivals w) = store_writes w"
proof -
  have a: "U message = Some (''typing'', receiver) \<longrightarrow>
      handle_frame U M S c message reply w =
        w\<lparr>rt := SendToUser S reply (rt w) receiver (M (typingMsg c))\<rparr>"
    using handle_frame_typing by blast
  have b: "U message = Some (''typing'', receiver) \<and> reply = Added delta evict \<longrightarrow>
      Values (last (entries (streams (rt (handle_frame U M S c message reply w)) streamKey))) =
        [''target_user_id'' \<mapsto> GoString (S receiver),
         ''payload'' \<mapsto> GoString (M (typingMsg c))]"
  proof
    assume h: "U message = Some (''typing'', receiver) \<and> reply = Added delta evict"
    define args where "args = \<lparr>Stream = streamKey,
              AddValues = [''target_user_id'' \<mapsto> GoString (S receiver),
                           ''payload'' \<mapsto> GoString (M (typingMsg c))],
              MaxLen = 100000, Approx = True\<rparr>"
    have ap: "Approx args" and mx: "0 < MaxLen args" by (simp_all add: args_def)
    have "streams (rt (handle_frame U M S c message reply w)) streamKey =
        redis_XAdd delta evict args (streams (rt w) streamKey)"
      using h by (simp add: handle_frame_typing SendToUser_Added args_def)
    then show "Values (last (entries (streams (rt (handle_frame U M S c message reply w)) streamKey))) =
        [''target_user_id'' \<mapsto> GoString (S receiver),
         ''payload'' \<mapsto> GoString (M (typingMsg c))]"
      using XAdd_capped [OF ap mx, of delta evict "streams (rt w) streamKey"]
      by (simp add: args_def)
  qed
  have c: "U message = None \<longrightarrow> handle_frame U M S c message reply w = w"
    using handle_frame_dropped by blast
  have d: "\<forall>ty rcv. U message = Some (ty, rcv) \<and> ty \<noteq> ''typing'' \<longrightarrow>
      handle_frame U M S c message reply w = w"
    using handle_frame_dropped by blast
  have e: "\<not> readDeadline (cn w) < t \<and> length message \<le> readLimit (cn w) \<and>
    (f = TextMessage message \<or> f = BinaryMessage message) \<longrightarrow>
      ReadPump_loop U M S c (Arrives t f reply # rest) w =
        ReadPump_loop U M S c rest (handle_frame U M S c message reply w)"
    by auto
  have f: "store_writes (ReadPump U M S c now arrivals w) = store_writes w"
    by (simp add: ReadPump_def ReadPump_loop_store)
  show ?thesis
    using a b c d e f unfolding typingMsg_def streamKey_def by blast
qed

text \<open>
  Frames on one session: a typing frame is published for its receiver, as a text frame
  and as a binary frame; a frame that is not JSON and a frame of another type change
  nothing; after a binary typing frame and a frame that is not JSON the loop still reads
  the next typing frame, so two entries are published.
\<close>

theorem typing_frames_relayed_witness:
  "ex_Unmarshal ''T'' = Some (''typing'', 2) \<and>
   handle_frame ex_Unmarshal ex_Marshal ex_String ex_A ''T'' (Added 0 0) ex_session =
     ex_session\<lparr>rt := SendToUser ex_String (Added 0 0) (rt ex_session) 2
                           ''typing:user_idusername''\<rparr> \<and>
   Values (last (entries (streams (rt (handle_frame ex_Unmarshal ex_Marshal ex_String ex_A ''T''
                                         (Added 0 0) ex_session))
                            ''locolive:stream:routing''))) =
     [''target_user_id'' \<mapsto> GoString ''u2'',
      ''payload'' \<mapsto> GoString ''typing:user_idusername''] \<and>
   ex_Unmarshal ''{'' = None \<and>
   handle_frame ex_Unmarshal ex_Marshal ex_String ex_A ''{'' (Added 0 0) ex_session = ex_session \<and>
   ex_Unmarshal ''R'' = Some (''read'', 2) \<and>
   handle_frame ex_Unmarshal ex_Marshal ex_String ex_A ''R'' (Added 0 0) ex_session = ex_session \<and>
   ReadPump_loop ex_Unmarshal ex_Marshal ex_String ex_A
       (Arrives 0 (BinaryMessage ''T'') (Added 0 0) # [Arrives 0 (TextMessage ''R'') (Added 0 0)])
       (ex_session\<lparr>cn := ex_conn\<rparr>) =
     ReadPump_loop ex_Unmarshal ex_Marshal ex_String ex_A [Arrives 0 (TextMessage ''R'') (Added 0 0)]
       (handle_frame ex_Unmarshal ex_Marshal ex_String ex_A ''T'' (Added 0 0)
          (ex_session\<lparr>cn := ex_conn\<rparr>)) \<and>
   ReadPump_loop ex_Unmarshal ex_Marshal ex_String ex_A
       (Arrives 0 (TextMessage ''{'') (Added 0 0) # [Arrives 0 (TextMessage ''T'') (Added 0 0)])
       (ex_session\<lparr>cn := ex_conn\<rparr>) =
     ReadPump_loop ex_Unmarshal ex_Marshal ex_String ex_A [Arrives 0 (TextMessage ''T'') (Added 0 0)]
       (ex_session\<lparr>cn := ex_conn\<rparr>) \<and>
   map ID (entries (streams (rt (ReadPump ex_Unmarshal ex_Marshal ex_String ex_A 0
       [Arrives Second (BinaryMessage ''T'') (Added 0 0),
        Arrives (2 * Second) (TextMessage ''{'') (Added 0 0),
        Arrives (3 * Second) (TextMessage ''T'') (Added 4 0)] ex_session))
       ''locolive:stream:routing'')) = [1, 6]"
proof -
  let ?w = "ex_session\<lparr>cn := ex_conn\<rparr>"
  have u1: "ex_Unmarshal ''T'' = Some (''typing'', 2)"
    and u2: "ex_Unmarshal ''{'' = None"
    and u3: "ex_Unmarshal ''R'' = Some (''read'', 2)"
    by (simp_all add: ex_Unmarshal_def)
  have m: "ex_Marshal \<lparr>Type = ''typing'',
                       Payload = [(''user_id'', PUUID (UserID ex_A)),
                                  (''username'', PString (Username ex_A))],
                       SenderID = 0, CreatedAt = 0\<rparr> = ''typing:user_idusername''"
    by (simp add: ex_Marshal_def)
  have s: "ex_String 2 = ''u2''" by (simp add: ex_String_def)
  have t1: "handle_frame ex_Unmarshal ex_Marshal ex_String ex_A ''T'' (Added 0 0) ex_session =
     ex_session\<lparr>rt := SendToUser ex_String (Added 0 0) (rt ex_session) 2
                           ''typing:user_idusername''\<rparr>"
    and t2: "Values (last (entries (streams (rt (handle_frame ex_Unmarshal ex_Marshal ex_String
                 ex_A ''T'' (Added 0 0) ex_session)) ''locolive:stream:routing''))) =
     [''target_user_id'' \<mapsto> GoString ''u2'',
      ''payload'' \<mapsto> GoString ''typing:user_idusername'']"
    using typing_frames_relayed [where U = ex_Unmarshal and message = "''T''" and receiver = 2
        and M = ex_Marshal and S = ex_String and c = ex_A and reply = "Added 0 0"
        and w = ex_session and delta = 0 and evict = 0] u1
    unfolding m s by blast+
  have t3: "handle_frame ex_Unmarshal ex_Marshal ex_String ex_A ''{'' (Added 0 0) ex_session =
      ex_session"
    using typing_frames_relayed [where U = ex_Unmarshal and message = "''{''"
        and M = ex_Marshal and S = ex_String and c = ex_A and reply = "Added 0 0"
        and w = ex_session] u2
    by blast
  have t4: "handle_frame ex_Unmarshal ex_Marshal ex_String ex_A ''R'' (Added 0 0) ex_session =
      ex_session"
    using typing_frames_relayed [where U = ex_Unmarshal and message = "''R''"
        and M = ex_Marshal and S = ex_String and c = ex_A and reply = "Added 0 0"
        and w = ex_session] u3
    by auto
  have ok: "\<not> readDeadline (cn ?w) < 0" "length ''T'' \<le> readLimit (cn ?w)"
      "length ''{'' \<le> readLimit (cn ?w)"
    by (simp_all add: ex_conn_def Second_def)
  have t5: "ReadPump_loop ex_Unmarshal ex_Marshal ex_String ex_A
       (Arrives 0 (BinaryMessage ''T'') (Added 0 0) # [Arrives 0 (TextMessage ''R'') (Added 0 0)]) ?w =
     ReadPump_loop ex_Unmarshal ex_Marshal ex_String ex_A [Arrives 0 (TextMessage ''R'') (Added 0 0)]
       (handle_frame ex_Unmarshal ex_Marshal ex_String ex_A ''T'' (Added 0 0) ?w)"
    using typing_frames_relayed [where U = ex_Unmarshal and message = "''T''"
        and M = ex_Marshal and S = ex_String and c = ex_A and reply = "Added 0 0"
        and w = ?w and t = 0 and f = "BinaryMessage ''T''"
        and rest = "[Arrives 0 (TextMessage ''R'') (Added 0 0)]"] ok
    by blast
  have d6: "handle_frame ex_Unmarshal ex_Marshal ex_String ex_A ''{'' (Added 0 0) ?w = ?w"
    using typing_frames_relayed [where U = ex_Unmarshal and message = "''{''"
        and M = ex_Marshal and S = ex_String and c = ex_A and reply = "Added 0 0"
        and w = ?w] u2
    by blast
  have t6: "ReadPump_loop ex_Unmarshal ex_Marshal ex_String ex_A
       (Arrives 0 (TextMessage ''{'') (Added 0 0) # [Arrives 0 (TextMessage ''T'') (Added 0 0)]) ?w =
     ReadPump_loop ex_Unmarshal ex_Marshal ex_String ex_A [Arrives 0 (TextMessage ''T'') (Added 0 0)] ?w"
    using typing_frames_relayed [where U = ex_Unmarshal and message = "''{''"
        and M = ex_Marshal and S = ex_String and c = ex_A and reply = "Added 0 0"
        and w = ?w and t = 0 and f = "TextMessage ''{''"
        and rest = "[Arrives 0 (TextMessage ''T'') (Added 0 0)]"] ok
    unfolding d6 by blast
  have t7: "map ID (entries (streams (rt (ReadPump ex_Unmarshal ex_Marshal ex_String ex_A 0
       [Arrives Second (BinaryMessage ''T'') (Added 0 0),
        Arrives (2 * Second) (TextMessage ''{'') (Added 0 0),
        Arrives (3 * Second) (TextMessage ''T'') (Added 4 0)] ex_session))
       ''locolive:stream:routing'')) = [1, 6]"
    by (simp add: ReadPump_def ReadPump_exit_def ex_session_def Second_def handle_frame_def
        ex_Unmarshal_def SendToUser_def db_XAdd_def redis_XAdd_def streamKey_def Let_def)
  show ?thesis using u1 u2 u3 t1 t2 t3 t4 t5 t6 t7 by blast
qed

lemma ReadPump_loop_oversize_binary:
  "readLimit (cn w) < length m \<Longrightarrow>
   ReadPump_loop U M S c (pre @ Arrives t (BinaryMessage m) reply # rest) w =
   ReadPump_loop U M S c (pre @ [NetworkError]) w"
proof (induction U M S c pre w rule: ReadPump_loop.induct)
  case (1 U M S c w)
  then show ?case by simp
next
  case (2 U M S c rest' w)
  then show ?case by simp
next
  case (3 U M S c t' f reply' rest' w)
  show ?case
  proof (cases "readDeadline (cn w) < t'")
    case True
    then show ?thesis by simp
  next
    case False
    then show ?thesis
      using 3 by (cases f) (simp_all add: handle_frame_fields)
  qed
qed

text \<open>
  C7, as the code has it. \<open>ReadPump\<close> sets the read limit to 4096 bytes and the read
  deadline to 60 seconds after its start. A pong that arrives before the deadline moves
  the deadline to 60 seconds after its arrival; as long as no pong arrives the deadline
  stays where the start put it, whatever data frames are received. A frame that arrives
  after the deadline ends the loop, and so does a data frame of more than 4096 bytes:
  nothing that follows it is read.
\<close>

theorem read_deadline_moved_by_pong_only:
  "ReadPump U M S c now arrivals w =
     ReadPump_loop U M S c arrivals
       (w\<lparr>cn := (cn w)\<lparr>readLimit := 4096, readDeadline := now + 60 * Second\<rparr>\<rparr>) \<and>
   (\<not> readDeadline (cn w) < t \<longrightarrow>
      ReadPump_loop U M S c (Arrives t PongMessage reply # rest) w =
        ReadPump_loop U M S c rest (w\<lparr>cn := (cn w)\<lparr>readDeadline := t + 60 * Second\<rparr>\<rparr>)) \<and>
   ((\<forall>a \<in> set arrivals. \<not> is_pong a) \<longrightarrow>
      readDeadline (cn (ReadPump U M S c now arrivals w)) = now + 60 * Second) \<and>
   (readDeadline (cn w) < t \<longrightarrow>
      ReadPump_loop U M S c (Arrives t f reply # rest) w = ReadPump_exit c w) \<and>
   (4096 < length m \<and> (f = TextMessage m \<or> f = BinaryMessage m) \<longrightarrow>
      ReadPump U M S c now (pre @ Arrives t f reply # rest) w =
        ReadPump U M S c now (pre @ [NetworkError]) w)"
proof -
  let ?w0 = "w\<lparr>cn := (cn w)\<lparr>readLimit := 4096, readDeadline := now + 60 * Second\<rparr>\<rparr>"
  have a: "ReadPump U M S c now arrivals w = ReadPump_loop U M S c arrivals ?w0"
    by (simp add: ReadPump_def)
  have b: "\<not> readDeadline (cn w) < t \<longrightarrow>
      ReadPump_loop U M S c (Arrives t PongMessage reply # rest) w =
        ReadPump_loop U M S c rest (w\<lparr>cn := (cn w)\<lparr>readDeadline := t + 60 * Second\<rparr>\<rparr>)"
    by simp
  have c: "(\<forall>a \<in> set arrivals. \<not> is_pong a) \<longrightarrow>
      readDeadline (cn (ReadPump U M S c now arrivals w)) = now + 60 * Second"
    unfolding a using ReadPump_loop_deadline [of arrivals U M S c ?w0] by simp
  have d: "readDeadline (cn w) < t \<longrightarrow>
      ReadPump_loop U M S c (Arrives t f reply # rest) w = ReadPump_exit c w"
    by simp
  have lim: "readLimit (cn ?w0) < length m" if "4096 < length m" using that by simp
  have e: "4096 < length m \<and> (f = TextMessage m \<or> f = BinaryMessage m) \<longrightarrow>
      ReadPump U M S c now (pre @ Arrives t f reply # rest) w =
        ReadPump U M S c now (pre @ [NetworkError]) w"
    unfolding ReadPump_def
    using ReadPump_loop_oversize [OF lim] ReadPump_loop_oversize_binary [OF lim] by blast
  show ?thesis using a b c d e by blast
qed

text \<open>
  C7 as stated fails: a text frame received 30 seconds after the start leaves the read
  deadline at 60 seconds after the start, not at 90, so a second frame received at 70
  seconds is no longer read.
\<close>

theorem data_frame_does_not_refresh_deadline:
  "readDeadline (cn (ReadPump ex_Unmarshal ex_Marshal ex_String ex_A 0
       [Arrives (30 * Second) (TextMessage ''T'') (Added 0 0)] ex_session)) = 60 * Second \<and>
   readDeadline (cn (ReadPump ex_Unmarshal ex_Marshal ex_String ex_A 0
       [Arrives (30 * Second) (TextMessage ''T'') (Added 0 0)] ex_session))
     \<noteq> 30 * Second + 60 * Second \<and>
   ReadPump ex_Unmarshal ex_Marshal ex_String ex_A 0
       [Arrives (30 * Second) (TextMessage ''T'') (Added 0 0),
        Arrives (70 * Second) (TextMessage ''T'') (Added 0 0)] ex_session =
   ReadPump ex_Unmarshal ex_Marshal ex_String ex_A 0
       [Arrives (30 * Second) (TextMessage ''T'') (Added 0 0)] ex_session"
  by (simp add: ReadPump_def ReadPump_exit_def ex_session_def Second_def handle_frame_fields)

text \<open>
  A pong at 30 seconds moves the deadline to 90 seconds; without one it stays at 60; a
  frame of 4097 bytes ends the loop.
\<close>

theorem read_deadline_moved_by_pong_only_witness:
  "readDeadline (cn (ReadPump ex_Unmarshal ex_Marshal ex_String ex_A 0
       [Arrives (30 * Second) (TextMessage ''T'') (Added 0 0)] ex_session)) = 0 + 60 * Second \<and>
   ReadPump_loop ex_Unmarshal ex_Marshal ex_String ex_A
       [Arrives (30 * Second) PongMessage (Added 0 0)]
       (ex_session\<lparr>cn := (cn ex_session)\<lparr>readDeadline := 60 * Second\<rparr>\<rparr>) =
     ReadPump_loop ex_Unmarshal ex_Marshal ex_String ex_A []
       (ex_session\<lparr>cn := (cn ex_session)\<lparr>readDeadline := 30 * Second + 60 * Second\<rparr>\<rparr>) \<and>
   ReadPump ex_Unmarshal ex_Marshal ex_String ex_A 0
       ([] @ Arrives Second (TextMessage (replicate 4097 CHR ''a'')) (Added 0 0)
           # [Arrives (2 * Second) (TextMessage ''T'') (Added 0 0)]) ex_session =
     ReadPump ex_Unmarshal ex_Marshal ex_String ex_A 0 ([] @ [NetworkError]) ex_session"
proof -
  let ?w = "ex_session\<lparr>cn := (cn ex_session)\<lparr>readDeadline := 60 * Second\<rparr>\<rparr>"
  have np: "\<forall>a \<in> set [Arrives (30 * Second) (TextMessage ''T'') (Added 0 0)]. \<not> is_pong a"
    by simp
  have a: "readDeadline (cn (ReadPump ex_Unmarshal ex_Marshal ex_String ex_A 0
       [Arrives (30 * Second) (TextMessage ''T'') (Added 0 0)] ex_session)) = 0 + 60 * Second"
    using read_deadline_moved_by_pong_only [of ex_Unmarshal ex_Marshal ex_String ex_A 0
        "[Arrives (30 * Second) (TextMessage ''T'') (Added 0 0)]" ex_session] np
    by blast
  have before: "\<not> readDeadline (cn ?w) < 30 * Second" by (simp add: Second_def)
  have b: "ReadPump_loop ex_Unmarshal ex_Marshal ex_String ex_A
       [Arrives (30 * Second) PongMessage (Added 0 0)] ?w =
     ReadPump_loop ex_Unmarshal ex_Marshal ex_String ex_A []
       (?w\<lparr>cn := (cn ?w)\<lparr>readDeadline := 30 * Second + 60 * Second\<rparr>\<rparr>)"
    using read_deadline_moved_by_pong_only [of ex_Unmarshal ex_Marshal ex_String ex_A 0 "[]" ?w
        "30 * Second" "Added 0 0" "[]"] before
    by blast
  have big: "4096 < length (replicate 4097 CHR ''a'')" by simp
  have c: "ReadPump ex_Unmarshal ex_Marshal ex_String ex_A 0
       ([] @ Arrives Second (TextMessage (replicate 4097 CHR ''a'')) (Added 0 0)
           # [Arrives (2 * Second) (TextMessage ''T'') (Added 0 0)]) ex_session =
     ReadPump ex_Unmarshal ex_Marshal ex_String ex_A 0 ([] @ [NetworkError]) ex_session"
    using read_deadline_moved_by_pong_only [of ex_Unmarshal ex_Marshal ex_String ex_A 0 "[]"
        ex_session Second "Added 0 0" "[Arrives (2 * Second) (TextMessage ''T'') (Added 0 0)]"
        "TextMessage (replicate 4097 CHR ''a'')" "replicate 4097 CHR ''a''" "[]"] big
    by blast
  show ?thesis using a b c by simp
qed

section \<open>The location update handler\<close>

lemma check_and_persist_rejected:
  "\<not> Allowed (validation env) \<Longrightarrow>
   check_and_persist Encode String env req =
     (JSON 200 [(''status'', ''updated'')],
      [ValidateUserMovement (String (authUserID env)) (Latitude req) (Longitude req)] @
      (if ShouldBan (validation env) then [BanUser (authUserID env) True] else []))"
  by (simp add: check_and_persist_def Let_def)

lemma check_and_persist_accepted:
  "Allowed (validation env) \<Longrightarrow> createLocationErr env = None \<Longrightarrow>
   fst (check_and_persist Encode String env req) = JSON 200 [(''status'', ''updated'')] \<and>
   (\<exists>c \<in> set (snd (check_and_persist Encode String env req)). is_CreateLocation c)"
  by (simp add: check_and_persist_def Let_def)

lemma updateLocation_not_ghost:
  "bound env = Inr req \<Longrightarrow> \<not> ghost_active env \<Longrightarrow>
   updateLocation Encode String env =
     (fst (check_and_persist Encode String env req),
      GetUserByID (authUserID env) #
      (if ghost_expired env then [ToggleGhostMode (authUserID env) False None] else []) @
      snd (check_and_persist Encode String env req))"
  by (auto simp: updateLocation_def ghost_active_def ghost_expired_def Let_def
      split: sum.splits option.splits prod.splits)

text \<open>
  C1. For a request that binds (coordinates in range) with ghost mode not active, when
  the movement monitor answers \<open>Allowed = false\<close> the handler answers 200 with
  \<open>{"status": "updated"}\<close> and makes no \<open>CreateLocation\<close> call: its calls are
  the user lookup, the ghost mode toggle if the ghost mode had expired, the monitor, and
  \<open>BanUser\<close> if the monitor asks for it. An accepted update (monitor allows, the
  location is stored without error) gets the very same response.
\<close>

theorem rejected_location_looks_accepted:
  assumes b: "bound env = Inr req" and g: "\<not> ghost_active env"
    and r: "\<not> Allowed (validation env)"
  shows "fst (updateLocation Encode String env) = JSON 200 [(''status'', ''updated'')] \<and>
     list_all (\<lambda>c. \<not> is_CreateLocation c) (snd (updateLocation Encode String env)) \<and>
     (\<forall>env' req'. bound env' = Inr req' \<and> \<not> ghost_active env' \<and> Allowed (validation env') \<and>
        createLocationErr env' = None \<longrightarrow>
        fst (updateLocation Encode String env') = fst (updateLocation Encode String env) \<and>
        \<not> list_all (\<lambda>c. \<not> is_CreateLocation c) (snd (updateLocation Encode String env')))"
proof -
  have u: "updateLocation Encode String env =
     (fst (check_and_persist Encode String env req),
      GetUserByID (authUserID env) #
      (if ghost_expired env then [ToggleGhostMode (authUserID env) False None] else []) @
      snd (check_and_persist Encode String env req))"
    by (rule updateLocation_not_ghost [OF b g])
  have c: "check_and_persist Encode String env req =
     (JSON 200 [(''status'', ''updated'')],
      [ValidateUserMovement (String (authUserID env)) (Latitude req) (Longitude req)] @
      (if ShouldBan (validation env) then [BanUser (authUserID env) True] else []))"
    by (rule check_and_persist_rejected [OF r])
  have r1: "fst (updateLocation Encode String env) = JSON 200 [(''status'', ''updated'')]"
    unfolding u c by simp
  have r2: "list_all (\<lambda>c. \<not> is_CreateLocation c) (snd (updateLocation Encode String env))"
    unfolding u c by simp
  have r3: "fst (updateLocation Encode String env') = fst (updateLocation Encode String env) \<and>
        \<not> list_all (\<lambda>c. \<not> is_CreateLocation c) (snd (updateLocation Encode String env'))"
    if h: "bound env' = Inr req' \<and> \<not> ghost_active env' \<and> Allowed (validation env') \<and>
        createLocationErr env' = None" for env' req'
  proof -
    have u': "updateLocation Encode String env' =
     (fst (check_and_persist Encode String env' req'),
      GetUserByID (authUserID env') #
      (if ghost_expired env' then [ToggleGhostMode (authUserID env') False None] else []) @
      snd (check_and_persist Encode String env' req'))"
      using updateLocation_not_ghost h by blast
    have a: "fst (check_and_persist Encode String env' req') = JSON 200 [(''status'', ''updated'')] \<and>
       (\<exists>c \<in> set (snd (check_and_persist Encode String env' req')). is_CreateLocation c)"
      using check_and_persist_accepted h by blast
    show ?thesis unfolding u' using a r1 by (auto simp: list_all_iff)
  qed
  show ?thesis using r1 r2 r3 by blast
qed

text \<open>
  A rejected update with a ban: three calls, none stores a location, and the response is
  that of the same request when the monitor allows it.
\<close>

theorem rejected_location_looks_accepted_witness:
  "bound ex_env = Inr \<lparr>Latitude = 10, Longitude = 20\<rparr> \<and> \<not> ghost_active ex_env \<and>
   \<not> Allowed (validation ex_env) \<and>
   updateLocation ex_Encode ex_String ex_env =
     (JSON 200 [(''status'', ''updated'')],
      [GetUserByID 1, ValidateUserMovement ''u1'' 10 20, BanUser 1 True]) \<and>
   list_all (\<lambda>c. \<not> is_CreateLocation c) (snd (updateLocation ex_Encode ex_String ex_env)) \<and>
   fst (updateLocation ex_Encode ex_String
          (ex_env\<lparr>validation := \<lparr>Allowed = True, ShouldBan = False\<rparr>\<rparr>)) =
     fst (updateLocation ex_Encode ex_String ex_env)"
proof -
  let ?ok = "ex_env\<lparr>validation := \<lparr>Allowed = True, ShouldBan = False\<rparr>\<rparr>"
  have b: "bound ex_env = Inr \<lparr>Latitude = 10, Longitude = 20\<rparr>" by (simp add: ex_env_def)
  have g: "\<not> ghost_active ex_env" by (simp add: ex_env_def ghost_active_def)
  have r: "\<not> Allowed (validation ex_env)" by (simp add: ex_env_def)
  have v: "updateLocation ex_Encode ex_String ex_env =
     (JSON 200 [(''status'', ''updated'')],
      [GetUserByID 1, ValidateUserMovement ''u1'' 10 20, BanUser 1 True])"
    by (simp add: updateLocation_def check_and_persist_def ex_env_def ex_String_def Let_def)
  have ok: "bound ?ok = Inr \<lparr>Latitude = 10, Longitude = 20\<rparr> \<and> \<not> ghost_active ?ok \<and>
      Allowed (validation ?ok) \<and> createLocationErr ?ok = None"
    by (simp add: ex_env_def ghost_active_def)
  have t: "fst (updateLocation ex_Encode ex_String ex_env) = JSON 200 [(''status'', ''updated'')] \<and>
     list_all (\<lambda>c. \<not> is_CreateLocation c) (snd (updateLocation ex_Encode ex_String ex_env)) \<and>
     (\<forall>env' req'. bound env' = Inr req' \<and> \<not> ghost_active env' \<and> Allowed (validation env') \<and>
        createLocationErr env' = None \<longrightarrow>
        fst (updateLocation ex_Encode ex_String env') = fst (updateLocation ex_Encode ex_String ex_env) \<and>
        \<not> list_all (\<lambda>c. \<not> is_CreateLocation c) (snd (updateLocation ex_Encode ex_String env')))"
    by (rule rejected_location_looks_accepted [OF b g r])
  have same: "fst (updateLocation ex_Encode ex_String ?ok) =
      fst (updateLocation ex_Encode ex_String ex_env)"
    using t ok by blast
  show ?thesis using b g r v t same by blast
qed

text \<open>
  C10, as the code has it. For a request that binds: when the user is read with ghost
  mode on and the expiry is absent or not passed, the handler answers 200 with
  \<open>{"status": "ghost"}\<close> and its only call is the user lookup: no movement check,
  no stored location. When the user is read with ghost mode on and the expiry has passed,
  the handler calls \<open>ToggleGhostMode\<close> with ghost mode off and no expiry, and then
  answers and calls exactly as it does for the same request of a user whose ghost mode
  is off. When the lookup of the user fails, the ghost mode block is skipped whatever
  the user's row holds: the handler answers and calls as the check-and-persist path does.
\<close>

theorem ghost_mode_skips_update:
  assumes b: "bound env = Inr req"
  shows "(userResult env = Inr user \<and> IsGhostMode user \<longrightarrow>
        (ghost_active env \<longrightarrow>
           updateLocation Encode String env =
             (JSON 200 [(''status'', ''ghost'')], [GetUserByID (authUserID env)])) \<and>
        (ghost_expired env \<longrightarrow>
           updateLocation Encode String env =
             (fst (check_and_persist Encode String env req),
              [GetUserByID (authUserID env), ToggleGhostMode (authUserID env) False None] @
              snd (check_and_persist Encode String env req)) \<and>
           updateLocation Encode String (env\<lparr>userResult := Inr (user\<lparr>IsGhostMode := False\<rparr>)\<rparr>) =
             (fst (check_and_persist Encode String env req),
              [GetUserByID (authUserID env)] @ snd (check_and_persist Encode String env req))) \<and>
        (ghost_active env \<noteq> ghost_expired env)) \<and>
     (userResult env = Inl userErr \<longrightarrow>
        updateLocation Encode String env =
          (fst (check_and_persist Encode String env req),
           [GetUserByID (authUserID env)] @ snd (check_and_persist Encode String env req)))"
proof -
  have cp: "check_and_persist Encode String (env\<lparr>userResult := x\<rparr>) req =
      check_and_persist Encode String env req" for x
    by (simp add: check_and_persist_def Let_def split: option.splits)
  have e2: "updateLocation Encode String (env\<lparr>userResult := Inr (user\<lparr>IsGhostMode := False\<rparr>)\<rparr>) =
          (fst (check_and_persist Encode String env req),
           [GetUserByID (authUserID env)] @ snd (check_and_persist Encode String env req))"
    using b by (simp add: updateLocation_def cp split: prod.splits)
  have read: "(ghost_active env \<longrightarrow>
           updateLocation Encode String env =
             (JSON 200 [(''status'', ''ghost'')], [GetUserByID (authUserID env)])) \<and>
        (ghost_expired env \<longrightarrow>
           updateLocation Encode String env =
             (fst (check_and_persist Encode String env req),
              [GetUserByID (authUserID env), ToggleGhostMode (authUserID env) False None] @
              snd (check_and_persist Encode String env req)) \<and>
           updateLocation Encode String (env\<lparr>userResult := Inr (user\<lparr>IsGhostMode := False\<rparr>)\<rparr>) =
             (fst (check_and_persist Encode String env req),
              [GetUserByID (authUserID env)] @ snd (check_and_persist Encode String env req))) \<and>
        (ghost_active env \<noteq> ghost_expired env)"
    if u: "userResult env = Inr user" and g: "IsGhostMode user"
  proof -
    have a: "ghost_active env \<longrightarrow>
        updateLocation Encode String env =
          (JSON 200 [(''status'', ''ghost'')], [GetUserByID (authUserID env)])"
      using b u g by (auto simp: updateLocation_def ghost_active_def split: option.splits)
    have e1: "ghost_expired env \<longrightarrow>
        updateLocation Encode String env =
          (fst (check_and_persist Encode String env req),
           [GetUserByID (authUserID env), ToggleGhostMode (authUserID env) False None] @
           snd (check_and_persist Encode String env req))"
      using b u g
      by (auto simp: updateLocation_def ghost_expired_def split: option.splits prod.splits)
    have x: "ghost_active env \<noteq> ghost_expired env"
      using u g by (auto simp: ghost_active_def ghost_expired_def split: option.splits)
    show ?thesis using a e1 e2 x by blast
  qed
  have failed: "updateLocation Encode String env =
          (fst (check_and_persist Encode String env req),
           [GetUserByID (authUserID env)] @ snd (check_and_persist Encode String env req))"
    if "userResult env = Inl userErr"
    using b that by (simp add: updateLocation_def split: prod.splits)
  show ?thesis using read failed by blast
qed

text \<open>
  A user in ghost mode until time 2000 at time 1000: only the lookup is made. A user
  whose ghost mode ended at time 500: the toggle is called and the update is checked. A
  lookup that fails: the update is checked.
\<close>

theorem ghost_mode_skips_update_witness:
  "bound (ex_env\<lparr>userResult := Inr ex_ghost_user\<rparr>) = Inr \<lparr>Latitude = 10, Longitude = 20\<rparr> \<and>
   IsGhostMode ex_ghost_user \<and> ghost_active (ex_env\<lparr>userResult := Inr ex_ghost_user\<rparr>) \<and>
   updateLocation ex_Encode ex_String (ex_env\<lparr>userResult := Inr ex_ghost_user\<rparr>) =
     (JSON 200 [(''status'', ''ghost'')], [GetUserByID 1]) \<and>
   IsGhostMode ex_expired_user \<and> ghost_expired (ex_env\<lparr>userResult := Inr ex_expired_user\<rparr>) \<and>
   updateLocation ex_Encode ex_String (ex_env\<lparr>userResult := Inr ex_expired_user\<rparr>) =
     (JSON 200 [(''status'', ''updated'')],
      [GetUserByID 1, ToggleGhostMode 1 False None, ValidateUserMovement ''u1'' 10 20,
       BanUser 1 True]) \<and>
   updateLocation ex_Encode ex_String (ex_env\<lparr>userResult := Inl ''timeout''\<rparr>) =
     (JSON 200 [(''status'', ''updated'')],
      [GetUserByID 1, ValidateUserMovement ''u1'' 10 20, BanUser 1 True])"
proof -
  let ?g = "ex_env\<lparr>userResult := Inr ex_ghost_user\<rparr>"
  let ?x = "ex_env\<lparr>userResult := Inr ex_expired_user\<rparr>"
  let ?f = "ex_env\<lparr>userResult := Inl ''timeout''\<rparr>"
  let ?req = "\<lparr>Latitude = 10, Longitude = 20\<rparr>"
  have bg: "bound ?g = Inr ?req" and bx: "bound ?x = Inr ?req" and bf: "bound ?f = Inr ?req"
    by (simp_all add: ex_env_def)
  have ug: "userResult ?g = Inr ex_ghost_user" and ux: "userResult ?x = Inr ex_expired_user"
    and uf: "userResult ?f = Inl ''timeout''"
    by simp_all
  have ig: "IsGhostMode ex_ghost_user" and ix: "IsGhostMode ex_expired_user"
    by (simp_all add: ex_ghost_user_def ex_expired_user_def)
  have ag: "ghost_active ?g"
    by (simp add: ghost_active_def ex_ghost_user_def ex_env_def)
  have ax: "ghost_expired ?x"
    by (simp add: ghost_expired_def ex_expired_user_def ex_env_def)
  have id: "authUserID ?g = 1" "authUserID ?x = 1" "authUserID ?f = 1"
    by (simp_all add: ex_env_def)
  have cp: "check_and_persist ex_Encode ex_String ?x ?req =
     (JSON 200 [(''status'', ''updated'')], [ValidateUserMovement ''u1'' 10 20, BanUser 1 True])"
    "check_and_persist ex_Encode ex_String ?f ?req =
     (JSON 200 [(''status'', ''updated'')], [ValidateUserMovement ''u1'' 10 20, BanUser 1 True])"
    by (simp_all add: check_and_persist_def ex_env_def ex_String_def Let_def)
  have r1: "updateLocation ex_Encode ex_String ?g =
     (JSON 200 [(''status'', ''ghost'')], [GetUserByID 1])"
    using ghost_mode_skips_update [OF bg, where user = ex_ghost_user and Encode = ex_Encode
        and String = ex_String] ug ig ag id
    by simp
  have r2: "updateLocation ex_Encode ex_String ?x =
     (JSON 200 [(''status'', ''updated'')],
      [GetUserByID 1, ToggleGhostMode 1 False None, ValidateUserMovement ''u1'' 10 20,
       BanUser 1 True])"
    using ghost_mode_skips_update [OF bx, where user = ex_expired_user and Encode = ex_Encode
        and String = ex_String] ux ix ax id cp
    by simp
  have r3: "updateLocation ex_Encode ex_String ?f =
     (JSON 200 [(''status'', ''updated'')],
      [GetUserByID 1, ValidateUserMovement ''u1'' 10 20, BanUser 1 True])"
    using ghost_mode_skips_update [OF bf, where userErr = "''timeout''" and Encode = ex_Encode
        and String = ex_String] uf id cp
    by simp
  show ?thesis using bg ig ag r1 ix ax r2 r3 by blast
qed

text \<open>
  C10 as stated fails. The user's row has ghost mode on until time 2000 and the request
  arrives at time 1000, but the read of the user fails: the handler asks the monitor,
  stores the location and answers \<open>{"status": "updated"}\<close>, not
  \<open>{"status": "ghost"}\<close>.
\<close>

theorem ghost_user_stored_when_lookup_fails:
  "IsGhostMode ex_ghost_user \<and> GhostModeExpiresAt ex_ghost_user = Some 2000 \<and>
   nowGhost ex_env = 1000 \<and>
   bound ex_env = Inr \<lparr>Latitude = 10, Longitude = 20\<rparr> \<and>
   updateLocation ex_Encode ex_String
     (ex_env\<lparr>userResult := GetUserByID_answer (Some ''timeout'') ex_ghost_user,
             validation := \<lparr>Allowed = True, ShouldBan = False\<rparr>\<rparr>) =
     (JSON 200 [(''status'', ''updated'')],
      [GetUserByID 1, ValidateUserMovement ''u1'' 10 20,
       CreateLocation 1 ''u4pruz0'' 20 10 0 86400000001000,
       UpdateUserActivity 1, UpdateUserLocation 1 10 20]) \<and>
   updateLocation ex_Encode ex_String
     (ex_env\<lparr>userResult := GetUserByID_answer None ex_ghost_user,
             validation := \<lparr>Allowed = True, ShouldBan = False\<rparr>\<rparr>) =
     (JSON 200 [(''status'', ''ghost'')], [GetUserByID 1])"
  by (simp add: updateLocation_def check_and_persist_def ex_env_def ex_ghost_user_def
      GetUserByID_answer_def ex_Encode_def ex_String_def locationPrecision_def
      bucketDuration_def locationTTL_def Second_def Let_def)

section \<open>The feed cache\<close>

lemma feedCacheKey_eq: "feedCacheKey Encode lat lng = ''feed:'' @ take 5 (Encode lat lng)"
  by (simp add: feedCacheKey_def Let_def)

lemma CreateStory_ok:
  assumes "CreateStory Encode env userID lat lng w = (Inr story, w')"
  shows "story = \<lparr>story_UserID = userID, story_Geohash = Encode lat lng,
                  story_Lat = lat, story_Lng = lng\<rparr> \<and>
         stories w' = (stories w)(newID env \<mapsto> story) \<and>
         feed_cache w' =
           redis_Del (del_reached env) (feed_cache w) (''feed:'' @ take 5 (Encode lat lng))"
  using assms
  by (auto simp: CreateStory_def Let_def invalidateFeedCache_def split: option.splits)

lemma DeleteStory_ok:
  assumes "DeleteStory env storyID userID w = (None, w')"
  shows "\<exists>story. stories w storyID = Some story \<and> story_UserID story = userID \<and>
         stories w' = (stories w)(storyID := None) \<and>
         feed_cache w' =
           redis_Del (del_reached env) (feed_cache w) (''feed:'' @ take 5 (story_Geohash story))"
  using assms
  by (auto simp: DeleteStory_def Let_def invalidateFeedCache_def split: option.splits if_splits)

lemma getFeed_miss:
  "c (feedCacheKey Encode lat lng) = None \<Longrightarrow>
   fst (getFeed Encode gr sr (Inr v) lat lng c) = CacheMiss v"
  by (simp add: getFeed_def redis_Get_def Let_def)

text \<open>
  C8. The key \<open>getFeed\<close> reads for a viewer at \<open>p\<close> is \<open>feed:\<close> followed by the
  first five characters of the geohash of \<open>p\<close>. When these five characters are those
  of the geohash of \<open>q\<close>, a successful \<open>CreateStory\<close> at \<open>q\<close>, and a successful
  \<open>DeleteStory\<close> of a story whose stored geohash is that of \<open>q\<close> (as
  \<open>CreateStory\<close> stores it), delete exactly the viewer's key when \<open>Del\<close> reaches the
  cache: the entry is gone and the viewer's next \<open>getFeed\<close> is a miss that recomputes.
\<close>

theorem feed_key_shared_by_cell:
  assumes cell: "take 5 (Encode plat plng) = take 5 (Encode qlat qlng)"
  shows "feedCacheKey Encode plat plng = ''feed:'' @ take 5 (Encode plat plng) \<and>
     feedCacheKey Encode plat plng = ''feed:'' @ take 5 (Encode qlat qlng) \<and>
     (\<forall>env userID w story w'.
        CreateStory Encode env userID qlat qlng w = (Inr story, w') \<and> del_reached env \<longrightarrow>
        story_Geohash story = Encode qlat qlng \<and>
        feed_cache w' = (feed_cache w)(feedCacheKey Encode plat plng := None) \<and>
        (\<forall>gr sr v. fst (getFeed Encode gr sr (Inr v) plat plng (feed_cache w')) = CacheMiss v)) \<and>
     (\<forall>env storyID userID w story w'.
        stories w storyID = Some story \<and> story_Geohash story = Encode qlat qlng \<and>
        DeleteStory env storyID userID w = (None, w') \<and> del_reached env \<longrightarrow>
        feed_cache w' = (feed_cache w)(feedCacheKey Encode plat plng := None) \<and>
        (\<forall>gr sr v. fst (getFeed Encode gr sr (Inr v) plat plng (feed_cache w')) = CacheMiss v))"
proof -
  have k: "feedCacheKey Encode plat plng = ''feed:'' @ take 5 (Encode qlat qlng)"
    using cell by (simp add: feedCacheKey_eq)
  have gone: "\<forall>gr sr v. fst (getFeed Encode gr sr (Inr v) plat plng
                 ((c :: cache)(feedCacheKey Encode plat plng := None))) = CacheMiss v" for c
    by (simp add: getFeed_miss)
  have cr: "story_Geohash story = Encode qlat qlng \<and>
        feed_cache w' = (feed_cache w)(feedCacheKey Encode plat plng := None) \<and>
        (\<forall>gr sr v. fst (getFeed Encode gr sr (Inr v) plat plng (feed_cache w')) = CacheMiss v)"
    if h: "CreateStory Encode env userID qlat qlng w = (Inr story, w') \<and> del_reached env"
    for env userID w story w'
  proof -
    have ok: "story = \<lparr>story_UserID = userID, story_Geohash = Encode qlat qlng,
                  story_Lat = qlat, story_Lng = qlng\<rparr> \<and>
         stories w' = (stories w)(newID env \<mapsto> story) \<and>
         feed_cache w' =
           redis_Del (del_reached env) (feed_cache w) (''feed:'' @ take 5 (Encode qlat qlng))"
      using CreateStory_ok h by blast
    have g: "story_Geohash story = Encode qlat qlng" using ok by simp
    have c: "feed_cache w' = (feed_cache w)(feedCacheKey Encode plat plng := None)"
      using ok h unfolding k by (simp add: redis_Del_def)
    show ?thesis using g c gone [of "feed_cache w"] by simp
  qed
  have dl: "feed_cache w' = (feed_cache w)(feedCacheKey Encode plat plng := None) \<and>
        (\<forall>gr sr v. fst (getFeed Encode gr sr (Inr v) plat plng (feed_cache w')) = CacheMiss v)"
    if h: "stories w storyID = Some story \<and> story_Geohash story = Encode qlat qlng \<and>
        DeleteStory env storyID userID w = (None, w') \<and> del_reached env"
    for env storyID userID w story w'
  proof -
    obtain st where ok: "stories w storyID = Some st"
         "feed_cache w' =
           redis_Del (del_reached env) (feed_cache w) (''feed:'' @ take 5 (story_Geohash st))"
      using DeleteStory_ok h by blast
    have "st = story" using ok(1) h by simp
    then have c: "feed_cache w' = (feed_cache w)(feedCacheKey Encode plat plng := None)"
      using ok(2) h unfolding k by (simp add: redis_Del_def)
    show ?thesis using c gone [of "feed_cache w"] by simp
  qed
  show ?thesis using k cell cr dl feedCacheKey_eq [of Encode plat plng] by blast
qed

text \<open>
  A viewer at (10, 5) and a story at (10, 20) whose geohashes share \<open>u4pru\<close>: creating
  the story, and deleting it again, removes the viewer's cached feed.
\<close>

theorem feed_key_shared_by_cell_witness:
  "take 5 (ex_Encode 10 5) = take 5 (ex_Encode 10 20) \<and> ex_Encode 10 5 \<noteq> ex_Encode 10 20 \<and>
   feedCacheKey ex_Encode 10 5 = ''feed:u4pru'' \<and>
   fst (getFeed ex_Encode True True (Inr ''fresh'') 10 5 (feed_cache ex_world)) =
     CacheHit ''cached feed'' \<and>
   (\<exists>story w'. CreateStory ex_Encode ex_story_env 1 10 20 ex_world = (Inr story, w') \<and>
      del_reached ex_story_env \<and>
      feed_cache w' ''feed:u4pru'' = None \<and>
      fst (getFeed ex_Encode True True (Inr ''fresh'') 10 5 (feed_cache w')) = CacheMiss ''fresh'' \<and>
      (\<exists>w''. DeleteStory ex_story_env 7 1
                 (w'\<lparr>feed_cache := (feed_cache w')(''feed:u4pru'' \<mapsto> ''again'')\<rparr>) = (None, w'') \<and>
         feed_cache w'' ''feed:u4pru'' = None))"
proof -
  have cell: "take 5 (ex_Encode 10 5) = take 5 (ex_Encode 10 20)"
    and ne: "ex_Encode 10 5 \<noteq> ex_Encode 10 20"
    by (simp_all add: ex_Encode_def)
  have key: "feedCacheKey ex_Encode 10 5 = ''feed:u4pru''"
    by (simp add: feedCacheKey_def ex_Encode_def)
  have hit: "fst (getFeed ex_Encode True True (Inr ''fresh'') 10 5 (feed_cache ex_world)) =
     CacheHit ''cached feed''"
    by (simp add: getFeed_def key redis_Get_def ex_world_def)
  define story where "story = \<lparr>story_UserID = (1 :: uuid), story_Geohash = ex_Encode 10 20,
                  story_Lat = 10, story_Lng = 20\<rparr>"
  define w' where "w' = \<lparr>stories = [7 \<mapsto> story],
      feed_cache = (feed_cache ex_world)(''feed:u4pru'' := None)\<rparr>"
  have cr: "CreateStory ex_Encode ex_story_env 1 10 20 ex_world = (Inr story, w')"
    by (simp add: CreateStory_def ex_story_env_def ex_world_def story_def w'_def Let_def
        invalidateFeedCache_def redis_Del_def ex_Encode_def)
  have dr: "del_reached ex_story_env" by (simp add: ex_story_env_def)
  define w1 where "w1 = w'\<lparr>feed_cache := (feed_cache w')(''feed:u4pru'' \<mapsto> ''again'')\<rparr>"
  define w2 where "w2 = w1\<lparr>stories := (stories w1)(7 := None),
      feed_cache := (feed_cache w1)(''feed:u4pru'' := None)\<rparr>"
  have st: "stories w1 7 = Some story" and gh: "story_Geohash story = ex_Encode 10 20"
    by (simp_all add: w1_def w'_def story_def)
  have dl: "DeleteStory ex_story_env 7 1 w1 = (None, w2)"
    by (simp add: DeleteStory_def ex_story_env_def w1_def w2_def w'_def story_def Let_def
        invalidateFeedCache_def redis_Del_def ex_Encode_def)
  note t = feed_key_shared_by_cell [of ex_Encode 10 5 10 20, OF cell]
  have c1: "feed_cache w' = (feed_cache ex_world)(feedCacheKey ex_Encode 10 5 := None) \<and>
     (\<forall>gr sr v. fst (getFeed ex_Encode gr sr (Inr v) 10 5 (feed_cache w')) = CacheMiss v)"
    using t cr dr by blast
  have c2: "feed_cache w2 = (feed_cache w1)(feedCacheKey ex_Encode 10 5 := None)"
    using t st gh dl dr by blast
  have a: "feed_cache w' ''feed:u4pru'' = None" using c1 key by simp
  have b: "fst (getFeed ex_Encode True True (Inr ''fresh'') 10 5 (feed_cache w')) = CacheMiss ''fresh''"
    using c1 by blast
  have c: "feed_cache w2 ''feed:u4pru'' = None" using c2 key by simp
  show ?thesis using cell ne key hit cr dr a b dl c unfolding w1_def by blast
qed

end
